theory Spec2Isabelle
  imports Main "HOL-Library.Sublist"
begin

section \<open>Request validation of the server-side rendering engine\<close>

text \<open>
  A shallow embedding of the request validator (\<^verbatim>\<open>validation-DhKAntwS.mjs\<close>):
  \<^verbatim>\<open>getFirstHeaderValue\<close>, \<^verbatim>\<open>validateRequest\<close>, \<^verbatim>\<open>validateUrl\<close>,
  \<^verbatim>\<open>cloneRequestAndPatchHeaders\<close>, \<^verbatim>\<open>validateHeader\<close>, \<^verbatim>\<open>verifyHostAllowed\<close>,
  \<^verbatim>\<open>isHostAllowed\<close> and \<^verbatim>\<open>validateHeaders\<close>.

  Strings are \<open>char list\<close>. Header names and values are byte strings in the Fetch
  standard, so one \<open>char\<close> is one code unit of the JavaScript string.
  A \<^verbatim>\<open>throw new Error(...)\<close> is the \<open>Inl\<close> branch of a sum; the promise of the
  patched clone is an explicit \<open>error option\<close> threaded through every read.
\<close>

subsection \<open>String primitives of the language\<close>

text \<open>\<^verbatim>\<open>String.prototype.toLowerCase\<close> on code units below 256: A-Z and the Latin-1
  capitals (0xC0-0xDE without the multiplication sign) move up by 32.\<close>

definition toLowerCase_char :: "char \<Rightarrow> char" where
  "toLowerCase_char c =
     (let n = of_char c :: nat in
      if (65 \<le> n \<and> n \<le> 90) \<or> (192 \<le> n \<and> n \<le> 222 \<and> n \<noteq> 215)
      then char_of (n + 32) else c)"

definition toLowerCase :: "string \<Rightarrow> string" where
  "toLowerCase s = map toLowerCase_char s"

text \<open>\<^verbatim>\<open>String.prototype.trim\<close> strips white space and line terminators; below 256
  these are TAB, LF, VT, FF, CR, SP and NBSP.\<close>

definition is_white_space :: "char \<Rightarrow> bool" where
  "is_white_space c = (c \<in> set [CHR 0x09, CHR 0x0A, CHR 0x0B, CHR 0x0C, CHR 0x0D, CHR 0x20, CHR 0xA0])"

definition trim :: "string \<Rightarrow> string" where
  "trim s = rev (dropWhile is_white_space (rev (dropWhile is_white_space s)))"

text \<open>\<^verbatim>\<open>s.split(sep)\<close> for a one-character separator, and \<^verbatim>\<open>s.split(sep, limit)\<close>,
  which keeps the first \<open>limit\<close> pieces.\<close>

fun split_on :: "char \<Rightarrow> string \<Rightarrow> string list" where
  "split_on sep [] = [[]]"
| "split_on sep (c # cs) =
     (if c = sep then [] # split_on sep cs
      else (case split_on sep cs of
              [] \<Rightarrow> [[c]]
            | p # ps \<Rightarrow> (c # p) # ps))"

definition split_limit :: "char \<Rightarrow> nat \<Rightarrow> string \<Rightarrow> string list" where
  "split_limit sep limit s = take limit (split_on sep s)"

definition startsWith :: "string \<Rightarrow> string \<Rightarrow> bool" where
  "startsWith s p = (take (length p) s = p)"

definition endsWith :: "string \<Rightarrow> string \<Rightarrow> bool" where
  "endsWith s p = (length p \<le> length s \<and> drop (length s - length p) s = p)"

text \<open>\<^verbatim>\<open>Array.prototype.toString\<close> joins the elements with a comma.\<close>

fun join_comma :: "string list \<Rightarrow> string" where
  "join_comma [] = []"
| "join_comma [x] = x"
| "join_comma (x # y # ys) = x @ CHR '','' # join_comma (y # ys)"

subsection \<open>Data model\<close>

text \<open>The argument of \<^verbatim>\<open>getFirstHeaderValue\<close>: a string or an array of strings;
  \<^verbatim>\<open>undefined\<close> and \<^verbatim>\<open>null\<close> are \<open>None\<close>.\<close>

datatype header_value = Str string | Arr "string list"

fun toString :: "header_value \<Rightarrow> string" where
  "toString (Str s) = s"
| "toString (Arr xs) = join_comma xs"

text \<open>The header collection of a request, as its \<^verbatim>\<open>entries()\<close> yields it: one pair per
  header name, the name in lower case, the values of a repeated header already combined.
  \<^verbatim>\<open>Headers.prototype.get\<close> (the \<^verbatim>\<open>originalGet\<close> of the patch) lower-cases the name
  it is asked for and returns \<^verbatim>\<open>null\<close> when the header is absent. Names are taken to
  be valid header names; for any other string the platform's \<^verbatim>\<open>get\<close> throws a
  \<^verbatim>\<open>TypeError\<close> before the validator runs.\<close>

type_synonym headers = "(string \<times> string) list"

definition originalGet :: "headers \<Rightarrow> string \<Rightarrow> string option" where
  "originalGet hs name = map_of hs (toLowerCase name)"

definition originalValues :: "headers \<Rightarrow> string list" where
  "originalValues hs = map snd hs"

record request =
  url :: string
  headers :: headers

text \<open>The part of a parsed \<^verbatim>\<open>URL\<close> object that the validator reads.\<close>

record URL =
  hostname :: string

text \<open>The URL parser of the platform is not part of the repository. Every operation that
  parses takes it as a parameter: \<open>None\<close> is a parse failure (\<^verbatim>\<open>URL.canParse\<close> is
  false, \<^verbatim>\<open>new URL\<close> throws), \<open>Some u\<close> the parsed URL.\<close>

type_synonym url_parser = "string \<Rightarrow> URL option"

text \<open>The set of allowed hosts is a JavaScript \<^verbatim>\<open>Set\<close>: membership by \<^verbatim>\<open>has\<close>,
  iteration in insertion order. It is the list of its elements in that order.\<close>

type_synonym allowed_hosts = "string list"

text \<open>One constructor per \<^verbatim>\<open>throw\<close> site; \<open>message\<close> is the text the site builds.
  \<open>InvalidUrl\<close> is the \<^verbatim>\<open>TypeError\<close> of \<^verbatim>\<open>new URL(request.url)\<close>.\<close>

datatype error =
    HostCharsError string
  | PortError
  | ProtoError
  | PrefixError
  | UrlNotAllowed string
  | HeaderUnparsable string
  | HeaderNotAllowed string string
  | InvalidUrl

fun message :: "error \<Rightarrow> string" where
  \<open>message (HostCharsError headerName) =
     ''Header "'' @ headerName @ ''" contains characters that are not allowed.''\<close>
| \<open>message PortError = ''Header "x-forwarded-port" must be a numeric value.''\<close>
| \<open>message ProtoError = ''Header "x-forwarded-proto" must be either "http" or "https".''\<close>
| \<open>message PrefixError =
     ''Header "x-forwarded-prefix" must not start with multiple "/" or "'' @ [CHR 0x5C] @
     ''" or contain ".", ".." path segments.''\<close>
| \<open>message (UrlNotAllowed h) = ''URL with hostname "'' @ h @ ''" is not allowed.''\<close>
| \<open>message (HeaderUnparsable headerName) =
     ''Header "'' @ headerName @ ''" contains an invalid value and cannot be parsed.''\<close>
| \<open>message (HeaderNotAllowed headerName v) =
     ''Header "'' @ headerName @ ''" with value "'' @ v @ ''" is not allowed.''\<close>
| \<open>message InvalidUrl = ''Invalid URL''\<close>

subsection \<open>Constants\<close>

definition HOST_HEADERS_TO_VALIDATE :: "string list" where
  "HOST_HEADERS_TO_VALIDATE = [''host'', ''x-forwarded-host'']"

definition is_digit :: "char \<Rightarrow> bool" where
  "is_digit c = (c \<in> set ''0123456789'')"

definition is_letter :: "char \<Rightarrow> bool" where
  "is_letter c =
     (c \<in> set ''abcdefghijklmnopqrstuvwxyz'' \<or> c \<in> set ''ABCDEFGHIJKLMNOPQRSTUVWXYZ'')"

text \<open>\<^verbatim>\<open>/^\d+$/\<close>\<close>

definition VALID_PORT_REGEX_test :: "string \<Rightarrow> bool" where
  "VALID_PORT_REGEX_test s = (s \<noteq> [] \<and> list_all is_digit s)"

text \<open>\<^verbatim>\<open>/^https?$/i\<close>\<close>

definition VALID_PROTO_REGEX_test :: "string \<Rightarrow> bool" where
  "VALID_PROTO_REGEX_test s = (toLowerCase s = ''http'' \<or> toLowerCase s = ''https'')"

text \<open>\<^verbatim>\<open>/^[a-z0-9.:-]+$/i\<close>\<close>

definition host_class :: "char \<Rightarrow> bool" where
  "host_class c = (is_letter c \<or> is_digit c \<or> c \<in> set ''.:-'')"

definition VALID_HOST_REGEX_test :: "string \<Rightarrow> bool" where
  "VALID_HOST_REGEX_test s = (s \<noteq> [] \<and> list_all host_class s)"

text \<open>\<^verbatim>\<open>/^[/\\]{2}|(?:^|[/\\])\.\.?(?:[/\\]|$)/\<close>. \<^verbatim>\<open>test\<close> looks for a match
  starting at any index; \<open>at_start\<close> says whether the index is 0, where \<^verbatim>\<open>^\<close> holds.\<close>

definition is_sep :: "char \<Rightarrow> bool" where
  "is_sep c = (c = CHR ''/'' \<or> c = CHR 0x5C)"

text \<open>\<^verbatim>\<open>(?:[/\\]|$)\<close> at the head of the remaining input.\<close>

definition sep_or_end :: "string \<Rightarrow> bool" where
  "sep_or_end r = (case r of [] \<Rightarrow> True | c # _ \<Rightarrow> is_sep c)"

text \<open>\<^verbatim>\<open>\.\.?(?:[/\\]|$)\<close> at the head of the remaining input.\<close>

definition dot_segment_here :: "string \<Rightarrow> bool" where
  "dot_segment_here r =
     (case r of
        [] \<Rightarrow> False
      | c # r1 \<Rightarrow> c = CHR ''.'' \<and>
          ((case r1 of [] \<Rightarrow> False | d # r2 \<Rightarrow> d = CHR ''.'' \<and> sep_or_end r2) \<or> sep_or_end r1))"

text \<open>The first alternative, \<^verbatim>\<open>^[/\\]{2}\<close>.\<close>

definition alt1_here :: "bool \<Rightarrow> string \<Rightarrow> bool" where
  "alt1_here at_start r =
     (at_start \<and> (case r of a # b # _ \<Rightarrow> is_sep a \<and> is_sep b | _ \<Rightarrow> False))"

text \<open>The second alternative, \<^verbatim>\<open>(?:^|[/\\])\.\.?(?:[/\\]|$)\<close>.\<close>

definition alt2_here :: "bool \<Rightarrow> string \<Rightarrow> bool" where
  "alt2_here at_start r =
     ((at_start \<and> dot_segment_here r) \<or>
      (case r of [] \<Rightarrow> False | c # r1 \<Rightarrow> is_sep c \<and> dot_segment_here r1))"

fun regex_search :: "bool \<Rightarrow> string \<Rightarrow> bool" where
  "regex_search at_start [] = (alt1_here at_start [] \<or> alt2_here at_start [])"
| "regex_search at_start (c # cs) =
     (alt1_here at_start (c # cs) \<or> alt2_here at_start (c # cs) \<or> regex_search False cs)"

definition INVALID_PREFIX_REGEX_test :: "string \<Rightarrow> bool" where
  "INVALID_PREFIX_REGEX_test s = regex_search True s"

subsection \<open>The validator\<close>

text \<open>\<^verbatim>\<open>value?.toString().split(',', 1)[0]?.trim()\<close>\<close>

definition getFirstHeaderValue :: "header_value option \<Rightarrow> string option" where
  "getFirstHeaderValue v =
     (case v of
        None \<Rightarrow> None
      | Some x \<Rightarrow>
          (case split_limit (CHR '','') 1 (toString x) of
             [] \<Rightarrow> None
           | first # _ \<Rightarrow> Some (trim first)))"

fun wildcard_loop :: "string \<Rightarrow> allowed_hosts \<Rightarrow> bool" where
  "wildcard_loop h [] = False"
| "wildcard_loop h (allowedHost # rest) =
     (if \<not> startsWith allowedHost ''*.'' then wildcard_loop h rest
      else let domain = drop 1 allowedHost in
           if endsWith h domain then True else wildcard_loop h rest)"

definition isHostAllowed :: "string \<Rightarrow> allowed_hosts \<Rightarrow> bool" where
  "isHostAllowed h allowedHosts =
     (if h \<in> set allowedHosts then True else wildcard_loop h allowedHosts)"

definition validateUrl :: "URL \<Rightarrow> allowed_hosts \<Rightarrow> error + unit" where
  "validateUrl u allowedHosts =
     (if \<not> isHostAllowed (hostname u) allowedHosts then Inl (UrlNotAllowed (hostname u))
      else Inr ())"

text \<open>The first loop of \<^verbatim>\<open>validateHeaders\<close>, over \<^verbatim>\<open>HOST_HEADERS_TO_VALIDATE\<close>.\<close>

fun host_chars_loop :: "headers \<Rightarrow> string list \<Rightarrow> error + unit" where
  "host_chars_loop hs [] = Inr ()"
| "host_chars_loop hs (headerName # rest) =
     (case getFirstHeaderValue (map_option Str (originalGet hs headerName)) of
        None \<Rightarrow> host_chars_loop hs rest
      | Some headerValue \<Rightarrow>
          if headerValue \<noteq> [] \<and> \<not> VALID_HOST_REGEX_test headerValue
          then Inl (HostCharsError headerName)
          else host_chars_loop hs rest)"

definition validateHeaders :: "request \<Rightarrow> error + unit" where
  "validateHeaders req =
     (let hs = headers req in
      case host_chars_loop hs HOST_HEADERS_TO_VALIDATE of
        Inl e \<Rightarrow> Inl e
      | Inr _ \<Rightarrow>
          let xForwardedPort =
                getFirstHeaderValue (map_option Str (originalGet hs ''x-forwarded-port'')) in
          if (case xForwardedPort of None \<Rightarrow> False
              | Some p \<Rightarrow> p \<noteq> [] \<and> \<not> VALID_PORT_REGEX_test p)
          then Inl PortError
          else
            let xForwardedProto =
                  getFirstHeaderValue (map_option Str (originalGet hs ''x-forwarded-proto'')) in
            if (case xForwardedProto of None \<Rightarrow> False
                | Some p \<Rightarrow> p \<noteq> [] \<and> \<not> VALID_PROTO_REGEX_test p)
            then Inl ProtoError
            else
              let xForwardedPrefix =
                    getFirstHeaderValue (map_option Str (originalGet hs ''x-forwarded-prefix'')) in
              if (case xForwardedPrefix of None \<Rightarrow> False
                  | Some p \<Rightarrow> p \<noteq> [] \<and> INVALID_PREFIX_REGEX_test p)
              then Inl PrefixError
              else Inr ())"

definition validateRequest :: "url_parser \<Rightarrow> request \<Rightarrow> allowed_hosts \<Rightarrow> error + unit" where
  "validateRequest parse req allowedHosts =
     (case validateHeaders req of
        Inl e \<Rightarrow> Inl e
      | Inr _ \<Rightarrow>
          (case parse (url req) of
             None \<Rightarrow> Inl InvalidUrl
           | Some u \<Rightarrow> validateUrl u allowedHosts))"

definition verifyHostAllowed ::
  "url_parser \<Rightarrow> string \<Rightarrow> string \<Rightarrow> allowed_hosts \<Rightarrow> error + unit" where
  "verifyHostAllowed parse headerName headerValue allowedHosts =
     (case getFirstHeaderValue (Some (Str headerValue)) of
        None \<Rightarrow> Inr ()
      | Some v \<Rightarrow>
          if v = [] then Inr ()
          else
            (case parse (''http://'' @ v) of
               None \<Rightarrow> Inl (HeaderUnparsable headerName)
             | Some u \<Rightarrow>
                 if \<not> isHostAllowed (hostname u) allowedHosts
                 then Inl (HeaderNotAllowed headerName v)
                 else Inr ()))"

subsection \<open>The patched clone\<close>

text \<open>The promise \<^verbatim>\<open>onErrorPromise\<close>: \<open>None\<close> while pending, \<open>Some e\<close> once resolved.
  \<^verbatim>\<open>onError\<close> is its \<^verbatim>\<open>resolve\<close> function, which has no effect on a promise that is
  already resolved.\<close>

type_synonym promise = "error option"

definition onError :: "error \<Rightarrow> promise \<Rightarrow> promise" where
  "onError e p = (case p of None \<Rightarrow> Some e | Some e0 \<Rightarrow> Some e0)"

definition validateHeader ::
  "url_parser \<Rightarrow> string \<Rightarrow> string option \<Rightarrow> allowed_hosts \<Rightarrow> promise \<Rightarrow> (error + unit) \<times> promise"
  where
  "validateHeader parse name v allowedHosts p =
     (case v of
        None \<Rightarrow> (Inr (), p)
      | Some s \<Rightarrow>
          if s = [] then (Inr (), p)
          else if toLowerCase name \<notin> set HOST_HEADERS_TO_VALIDATE then (Inr (), p)
          else
            (case verifyHostAllowed parse name s allowedHosts of
               Inl e \<Rightarrow> (Inl e, onError e p)
             | Inr _ \<Rightarrow> (Inr (), p)))"

text \<open>\<^verbatim>\<open>cloneRequestAndPatchHeaders\<close> returns the clone, which has the URL and the headers
  of the request, and the pending promise. The three patched methods follow; each takes
  the promise and returns it with its result.\<close>

definition cloneRequestAndPatchHeaders :: "request \<Rightarrow> request \<times> promise" where
  "cloneRequestAndPatchHeaders req = (req, None)"

definition patched_get ::
  "url_parser \<Rightarrow> headers \<Rightarrow> allowed_hosts \<Rightarrow> string \<Rightarrow> promise \<Rightarrow>
   (error + string option) \<times> promise" where
  "patched_get parse hs allowedHosts name p =
     (let v = originalGet hs name in
      case v of
        None \<Rightarrow> (Inr v, p)
      | Some s \<Rightarrow>
          if s = [] then (Inr v, p)
          else
            (case validateHeader parse name v allowedHosts p of
               (Inl e, p') \<Rightarrow> (Inl e, p')
             | (Inr _, p') \<Rightarrow> (Inr v, p')))"

fun values_loop ::
  "url_parser \<Rightarrow> headers \<Rightarrow> allowed_hosts \<Rightarrow> string list \<Rightarrow> promise \<Rightarrow> (error + unit) \<times> promise"
  where
  "values_loop parse hs allowedHosts [] p = (Inr (), p)"
| "values_loop parse hs allowedHosts (name # rest) p =
     (case validateHeader parse name (originalGet hs name) allowedHosts p of
        (Inl e, p') \<Rightarrow> (Inl e, p')
      | (Inr _, p') \<Rightarrow> values_loop parse hs allowedHosts rest p')"

definition patched_values ::
  "url_parser \<Rightarrow> headers \<Rightarrow> allowed_hosts \<Rightarrow> promise \<Rightarrow> (error + string list) \<times> promise" where
  "patched_values parse hs allowedHosts p =
     (case values_loop parse hs allowedHosts HOST_HEADERS_TO_VALIDATE p of
        (Inl e, p') \<Rightarrow> (Inl e, p')
      | (Inr _, p') \<Rightarrow> (Inr (originalValues hs), p'))"

text \<open>The iterator that the patched \<^verbatim>\<open>headers.entries()\<close> returns wraps the original
  one; its state is the list of the entries not yet yielded, at first all of them.
  \<^verbatim>\<open>next\<close> advances the inner iterator before it validates, so the entry is consumed
  also when the validation throws; \<open>None\<close> is \<^verbatim>\<open>done\<close>. \<^verbatim>\<open>headers[Symbol.iterator]\<close>
  is the same function, so a \<^verbatim>\<open>for...of\<close> over the headers takes these steps.\<close>

definition entries_next ::
  "url_parser \<Rightarrow> allowed_hosts \<Rightarrow> headers \<Rightarrow> promise \<Rightarrow>
   (error + (string \<times> string) option) \<times> headers \<times> promise" where
  "entries_next parse allowedHosts it p =
     (case it of
        [] \<Rightarrow> (Inr None, [], p)
      | (k, v) # rest \<Rightarrow>
          (case validateHeader parse k (Some v) allowedHosts p of
             (Inl e, p') \<Rightarrow> (Inl e, rest, p')
           | (Inr _, p') \<Rightarrow> (Inr (Some (k, v)), rest, p')))"

subsection \<open>A model of the platform's URL parser\<close>

text \<open>The concrete scenarios below need a parser to run. \<open>URL_parse\<close> follows the URL
  Standard for \<^verbatim>\<open>http:\<close> and \<^verbatim>\<open>https:\<close> URLs whose host is an ASCII domain name:
  leading and trailing C0 controls and spaces are stripped and tabs and newlines removed;
  after the scheme and its slashes the authority runs to the first \<^verbatim>\<open>/\<close>, \<^verbatim>\<open>\\<close>,
  \<^verbatim>\<open>?\<close> or \<^verbatim>\<open>#\<close>; credentials end at the last \<^verbatim>\<open>@\<close>; the host runs to the first
  \<^verbatim>\<open>:\<close> and the port after it is a decimal number of at most 65535; an empty host or a
  forbidden domain code point in the host is a failure; the host is lower-cased.
  IPv6 literals, percent-escapes, non-ASCII names and hosts that end in a number are
  outside this model, and no statement below applies it to one.\<close>

definition c0_control_or_space :: "char \<Rightarrow> bool" where
  "c0_control_or_space c = ((of_char c :: nat) \<le> 32)"

definition tab_or_newline :: "char \<Rightarrow> bool" where
  "tab_or_newline c = (c \<in> set [CHR 0x09, CHR 0x0A, CHR 0x0D])"

definition forbidden_domain_code_point :: "char \<Rightarrow> bool" where
  "forbidden_domain_code_point c =
     (c0_control_or_space c \<or> c = CHR 0x7F \<or> c = CHR 0x5C \<or> c \<in> set ''#/:<>?@[]^|%'')"

definition ascii_lower :: "char \<Rightarrow> char" where
  "ascii_lower c =
     (if c \<in> set ''ABCDEFGHIJKLMNOPQRSTUVWXYZ'' then char_of ((of_char c :: nat) + 32) else c)"

definition strip_scheme :: "string \<Rightarrow> string option" where
  "strip_scheme s =
     (if map ascii_lower (take 7 s) = ''http://'' then Some (drop 7 s)
      else if map ascii_lower (take 8 s) = ''https://'' then Some (drop 8 s)
      else None)"

definition decimal :: "string \<Rightarrow> nat" where
  "decimal ds = foldl (\<lambda>n c. 10 * n + ((of_char c :: nat) - 48)) 0 ds"

definition URL_parse :: url_parser where
  "URL_parse input =
     (let s = filter (\<lambda>c. \<not> tab_or_newline c)
                (rev (dropWhile c0_control_or_space
                   (rev (dropWhile c0_control_or_space input))))
      in case strip_scheme s of
           None \<Rightarrow> None
         | Some r \<Rightarrow>
             let authority =
                   takeWhile (\<lambda>c. \<not> is_sep c \<and> c \<noteq> CHR ''?'' \<and> c \<noteq> CHR ''#'')
                     (dropWhile is_sep r);
                 hostport = rev (takeWhile (\<lambda>c. c \<noteq> CHR ''@'') (rev authority));
                 host = takeWhile (\<lambda>c. c \<noteq> CHR '':'') hostport;
                 port = drop 1 (dropWhile (\<lambda>c. c \<noteq> CHR '':'') hostport)
             in if host = [] \<or> \<not> list_all is_digit port \<or> 65535 < decimal port
                   \<or> list_ex forbidden_domain_code_point host
                then None
                else Some \<lparr>hostname = map ascii_lower host\<rparr>)"

subsection \<open>The rules as the specification words them\<close>

text \<open>These definitions follow the specification, not the code; the theorems below compare
  them with the code. A path is cut into segments at every \<^verbatim>\<open>/\<close> and \<^verbatim>\<open>\\<close>; a prefix is
  invalid when it starts with two separators or has a segment \<^verbatim>\<open>.\<close> or \<^verbatim>\<open>..\<close>.\<close>

fun spec_segments :: "string \<Rightarrow> string list" where
  "spec_segments [] = [[]]"
| "spec_segments (c # cs) =
     (if is_sep c then [] # spec_segments cs
      else (case spec_segments cs of
              [] \<Rightarrow> [[c]]
            | p # ps \<Rightarrow> (c # p) # ps))"

definition spec_invalid_prefix :: "string \<Rightarrow> bool" where
  "spec_invalid_prefix s =
     ((2 \<le> length s \<and> is_sep (s ! 0) \<and> is_sep (s ! 1))
      \<or> ''.'' \<in> set (spec_segments s) \<or> ''..'' \<in> set (spec_segments s))"

text \<open>The first token of a header of the request, \<open>None\<close> when the header is absent.\<close>

definition first_token :: "headers \<Rightarrow> string \<Rightarrow> string option" where
  "first_token hs name = getFirstHeaderValue (map_option Str (originalGet hs name))"

text \<open>The checks of the upfront validator, one by one: \<open>None\<close> when the check passes, the
  error it raises otherwise. \<open>spec_first_failure\<close> runs a list of checks in order and
  stops at the first that fails.\<close>

definition spec_check_host_chars :: "headers \<Rightarrow> string \<Rightarrow> error option" where
  "spec_check_host_chars hs name =
     (case first_token hs name of
        None \<Rightarrow> None
      | Some t \<Rightarrow> if t \<noteq> [] \<and> \<not> VALID_HOST_REGEX_test t then Some (HostCharsError name) else None)"

definition spec_check_port :: "headers \<Rightarrow> error option" where
  "spec_check_port hs =
     (case first_token hs ''x-forwarded-port'' of
        None \<Rightarrow> None
      | Some t \<Rightarrow> if t \<noteq> [] \<and> \<not> VALID_PORT_REGEX_test t then Some PortError else None)"

definition spec_check_proto :: "headers \<Rightarrow> error option" where
  "spec_check_proto hs =
     (case first_token hs ''x-forwarded-proto'' of
        None \<Rightarrow> None
      | Some t \<Rightarrow> if t \<noteq> [] \<and> \<not> VALID_PROTO_REGEX_test t then Some ProtoError else None)"

definition spec_check_prefix :: "headers \<Rightarrow> error option" where
  "spec_check_prefix hs =
     (case first_token hs ''x-forwarded-prefix'' of
        None \<Rightarrow> None
      | Some t \<Rightarrow> if t \<noteq> [] \<and> INVALID_PREFIX_REGEX_test t then Some PrefixError else None)"

definition spec_check_url :: "url_parser \<Rightarrow> request \<Rightarrow> allowed_hosts \<Rightarrow> error option" where
  "spec_check_url parse req allowedHosts =
     (case parse (url req) of
        None \<Rightarrow> Some InvalidUrl
      | Some u \<Rightarrow>
          if isHostAllowed (hostname u) allowedHosts then None
          else Some (UrlNotAllowed (hostname u)))"

fun spec_first_failure :: "error option list \<Rightarrow> error + unit" where
  "spec_first_failure [] = Inr ()"
| "spec_first_failure (None # cs) = spec_first_failure cs"
| "spec_first_failure (Some e # cs) = Inl e"

section \<open>Properties\<close>

subsection \<open>String primitives\<close>

lemma startsWith_prefix: "startsWith s p = prefix p s"
  unfolding startsWith_def
  by (metis append_eq_conv_conj prefix_def append_take_drop_id prefixI)

lemma endsWith_suffix: "endsWith s p = suffix p s"
proof
  assume "endsWith s p"
  then have d: "drop (length s - length p) s = p"
    by (simp add: endsWith_def)
  have "s = take (length s - length p) s @ drop (length s - length p) s" by simp
  with d have "s = take (length s - length p) s @ p" by simp
  then show "suffix p s" by (rule suffixI)
next
  assume "suffix p s"
  then obtain q where "s = q @ p" by (auto simp: suffix_def)
  then show "endsWith s p" by (simp add: endsWith_def)
qed

lemma starts_star_dot: "startsWith a ''*.'' = (\<exists>d. a = ''*.'' @ d)"
  by (auto simp: startsWith_prefix prefix_def)

subsection \<open>The allow-list matcher\<close>

lemma wildcard_loop_iff:
  "wildcard_loop h S = (\<exists>a\<in>set S. startsWith a ''*.'' \<and> endsWith h (drop 1 a))"
  by (induction S) (auto simp: Let_def)

lemma isHostAllowed_spec:
  "isHostAllowed h S = (h \<in> set S \<or> (\<exists>d. ''*.'' @ d \<in> set S \<and> suffix (''.'' @ d) h))"
  unfolding isHostAllowed_def wildcard_loop_iff starts_star_dot endsWith_suffix
  by auto

text \<open>
  C3. For every hostname \<open>h\<close> and every set \<open>S\<close> of patterns, \<^verbatim>\<open>isHostAllowed(h, S)\<close>
  is true if and only if \<open>h\<close> is a verbatim member of \<open>S\<close>, or some entry of \<open>S\<close> starts
  with \<^verbatim>\<open>*.\<close> and \<open>h\<close> ends with that entry without its leading \<^verbatim>\<open>*\<close> (the dot kept).
  Hence every member of \<open>S\<close> is allowed, and with \<open>S\<close> = \<^verbatim>\<open>{"*.example.com"}\<close> the host
  \<^verbatim>\<open>api.example.com\<close> is allowed while \<^verbatim>\<open>evilexample.com\<close> is not.
\<close>

theorem isHostAllowed_characterisation:
  "(isHostAllowed h S =
      (h \<in> set S \<or> (\<exists>d. ''*.'' @ d \<in> set S \<and> suffix (''.'' @ d) h)))
   \<and> (h \<in> set S \<longrightarrow> isHostAllowed h S)
   \<and> isHostAllowed ''api.example.com'' [''*.example.com'']
   \<and> \<not> isHostAllowed ''evilexample.com'' [''*.example.com'']"
proof -
  have a: "isHostAllowed ''api.example.com'' [''*.example.com'']"
    by (simp add: isHostAllowed_def startsWith_def endsWith_def)
  have b: "\<not> isHostAllowed ''evilexample.com'' [''*.example.com'']"
    by (simp add: isHostAllowed_def startsWith_def endsWith_def)
  show ?thesis using a b isHostAllowed_spec by blast
qed

theorem isHostAllowed_characterisation_witness:
  "''a.example.com'' \<in> set [''b.org'', ''a.example.com'']
   \<and> isHostAllowed ''a.example.com'' [''b.org'', ''a.example.com'']"
  using isHostAllowed_characterisation [of "''a.example.com''" "[''b.org'', ''a.example.com'']"]
  by simp

text \<open>
  C4, as the code has it. A wildcard entry does not match the bare domain without a
  leading label: for every domain \<open>d\<close>, \<^verbatim>\<open>isHostAllowed(d, {"*." + d})\<close> is false, because
  \<open>d\<close> does not end with \<^verbatim>\<open>"." + d\<close>.
\<close>

theorem wildcard_excludes_bare_domain:
  "\<not> isHostAllowed d [''*.'' @ d]"
  by (auto simp: isHostAllowed_spec suffix_def)

text \<open>The bare domain \<^verbatim>\<open>example.com\<close> is not allowed by \<^verbatim>\<open>{"*.example.com"}\<close>.\<close>

theorem wildcard_bare_domain_counterexample:
  "\<not> isHostAllowed ''example.com'' [''*.example.com'']"
  by (simp add: isHostAllowed_def startsWith_def endsWith_def)

subsection \<open>The first value of a header\<close>

lemma split_on_nonempty: "split_on sep s \<noteq> []"
  by (induction s) (auto split: list.splits)

lemma split_on_hd: "hd (split_on sep s) = takeWhile (\<lambda>c. c \<noteq> sep) s"
  using split_on_nonempty [of sep]
  by (induction s) (auto split: list.splits)

lemma getFirstHeaderValue_Some:
  "getFirstHeaderValue (Some v) = Some (trim (takeWhile (\<lambda>c. c \<noteq> CHR '','') (toString v)))"
proof -
  obtain p ps where s: "split_on (CHR '','') (toString v) = p # ps"
    using split_on_nonempty by (cases "split_on (CHR '','') (toString v)") auto
  then have "p = takeWhile (\<lambda>c. c \<noteq> CHR '','') (toString v)"
    using split_on_hd [of "CHR '',''" "toString v"] by simp
  with s show ?thesis
    by (simp add: getFirstHeaderValue_def split_limit_def)
qed

lemma rev_split_while:
  "xs = rev (dropWhile P (rev xs)) @ rev (takeWhile P (rev xs))"
  by (metis rev_append rev_rev_ident takeWhile_dropWhile_id)

lemma list_all_takeWhile: "list_all P (takeWhile P xs)"
  by (induction xs) auto

lemma trim_decompose:
  "\<exists>l r. s = l @ trim s @ r \<and> list_all is_white_space l \<and> list_all is_white_space r"
proof -
  define a where "a = dropWhile is_white_space s"
  define r where "r = rev (takeWhile is_white_space (rev a))"
  have a: "a = trim s @ r"
    unfolding trim_def r_def a_def by (rule rev_split_while)
  have s: "s = takeWhile is_white_space s @ a" by (simp add: a_def)
  have l: "list_all is_white_space (takeWhile is_white_space s)"
    by (rule list_all_takeWhile)
  have "list_all is_white_space (takeWhile is_white_space (rev a))"
    by (rule list_all_takeWhile)
  then have r: "list_all is_white_space r"
    by (simp add: r_def list_all_iff)
  from s a l r show ?thesis by metis
qed

lemma trim_no_trailing: "dropWhile is_white_space (rev (trim s)) = rev (trim s)"
  by (simp add: trim_def)

lemma dropWhile_fixed_prefix:
  assumes "dropWhile P a = a" and "a = b @ r"
  shows "dropWhile P b = b"
proof (cases b)
  case Nil
  then show ?thesis by simp
next
  case (Cons x xs)
  have "\<not> P x"
  proof
    assume "P x"
    with assms Cons have "dropWhile P (xs @ r) = x # xs @ r" by simp
    then have "length (x # xs @ r) \<le> length (xs @ r)"
      by (metis length_dropWhile_le)
    then show False by simp
  qed
  with Cons show ?thesis by simp
qed

lemma trim_no_leading: "dropWhile is_white_space (trim s) = trim s"
proof -
  define a where "a = dropWhile is_white_space s"
  have a: "a = trim s @ rev (takeWhile is_white_space (rev a))"
    unfolding trim_def a_def by (rule rev_split_while)
  have "dropWhile is_white_space a = a" by (simp add: a_def)
  then show ?thesis using a by (rule dropWhile_fixed_prefix)
qed

text \<open>
  C8. For every defined header value, \<^verbatim>\<open>getFirstHeaderValue\<close> returns the first
  comma-separated token (the text before the first comma) without its surrounding white
  space: the token is \<open>l @ t @ r\<close> with \<open>l\<close> and \<open>r\<close> white space only and \<open>t\<close>, the
  result, neither starting nor ending with white space. For \<^verbatim>\<open>undefined\<close> it returns
  \<^verbatim>\<open>undefined\<close>, and \<^verbatim>\<open>getFirstHeaderValue("a, b, c")\<close> is \<^verbatim>\<open>"a"\<close>.
\<close>

theorem getFirstHeaderValue_first_token:
  "getFirstHeaderValue None = None
   \<and> (\<exists>t l r. getFirstHeaderValue (Some v) = Some t
        \<and> takeWhile (\<lambda>c. c \<noteq> CHR '','') (toString v) = l @ t @ r
        \<and> list_all is_white_space l \<and> list_all is_white_space r
        \<and> dropWhile is_white_space t = t
        \<and> dropWhile is_white_space (rev t) = rev t)
   \<and> getFirstHeaderValue (Some (Str ''a, b, c'')) = Some ''a''"
proof -
  have n: "getFirstHeaderValue None = None"
    by (simp add: getFirstHeaderValue_def)
  have e: "getFirstHeaderValue (Some (Str ''a, b, c'')) = Some ''a''"
    by (simp add: getFirstHeaderValue_Some trim_def is_white_space_def)
  let ?tok = "takeWhile (\<lambda>c. c \<noteq> CHR '','') (toString v)"
  obtain l r where "?tok = l @ trim ?tok @ r" "list_all is_white_space l" "list_all is_white_space r"
    using trim_decompose [of ?tok] by blast
  then have "\<exists>t l r. getFirstHeaderValue (Some v) = Some t
        \<and> ?tok = l @ t @ r
        \<and> list_all is_white_space l \<and> list_all is_white_space r
        \<and> dropWhile is_white_space t = t
        \<and> dropWhile is_white_space (rev t) = rev t"
    using getFirstHeaderValue_Some trim_no_leading trim_no_trailing by blast
  with n e show ?thesis by blast
qed

subsection \<open>The prefix pattern\<close>

lemma spec_segments_nonempty: "spec_segments s \<noteq> []"
  by (induction s) (auto split: list.splits)

lemma spec_segments_hd: "hd (spec_segments s) = takeWhile (\<lambda>c. \<not> is_sep c) s"
  using spec_segments_nonempty
  by (induction s) (auto split: list.splits)

lemma dot_not_sep: "\<not> is_sep (CHR ''.'')"
  by (simp add: is_sep_def)

lemma sep_or_end_takeWhile: "sep_or_end r = (takeWhile (\<lambda>c. \<not> is_sep c) r = [])"
  by (cases r) (auto simp: sep_or_end_def)

lemma dot_segment_here_iff:
  "dot_segment_here r =
     (takeWhile (\<lambda>c. \<not> is_sep c) r = ''.'' \<or> takeWhile (\<lambda>c. \<not> is_sep c) r = ''..'')"
proof (cases r)
  case Nil
  then show ?thesis by (simp add: dot_segment_here_def)
next
  case (Cons c r1)
  show ?thesis
  proof (cases r1)
    case Nil
    with Cons show ?thesis
      by (auto simp: dot_segment_here_def sep_or_end_def dot_not_sep)
  next
    case (Cons d r2)
    with \<open>r = c # r1\<close> show ?thesis
      by (auto simp: dot_segment_here_def sep_or_end_takeWhile dot_not_sep)
  qed
qed

lemma regex_search_False:
  "regex_search False s =
     (\<exists>seg\<in>set (tl (spec_segments s)). seg = ''.'' \<or> seg = ''..'')"
proof (induction s)
  case Nil
  then show ?case by (simp add: alt1_here_def alt2_here_def)
next
  case (Cons c cs)
  obtain p ps where ps: "spec_segments cs = p # ps"
    using spec_segments_nonempty by (cases "spec_segments cs") auto
  then have p: "p = takeWhile (\<lambda>c. \<not> is_sep c) cs"
    using spec_segments_hd [of cs] by simp
  show ?case
  proof (cases "is_sep c")
    case True
    then show ?thesis
      using Cons ps p by (auto simp: alt1_here_def alt2_here_def dot_segment_here_iff)
  next
    case False
    then show ?thesis
      using Cons ps by (auto simp: alt1_here_def alt2_here_def)
  qed
qed

lemma regex_search_True:
  "regex_search True s = (alt1_here True s \<or> dot_segment_here s \<or> regex_search False s)"
  by (cases s) (auto simp: alt1_here_def alt2_here_def dot_segment_here_def)

lemma alt1_here_iff: "alt1_here True s = (2 \<le> length s \<and> is_sep (s ! 0) \<and> is_sep (s ! 1))"
  by (cases s; cases "tl s") (auto simp: alt1_here_def)

lemma some_segment_iff:
  "(\<exists>seg\<in>set (spec_segments s). seg = ''.'' \<or> seg = ''..'') =
     (dot_segment_here s \<or> regex_search False s)"
proof -
  obtain p ps where ps: "spec_segments s = p # ps"
    using spec_segments_nonempty by (cases "spec_segments s") auto
  then have p: "p = takeWhile (\<lambda>c. \<not> is_sep c) s"
    using spec_segments_hd [of s] by simp
  have "dot_segment_here s = (p = ''.'' \<or> p = ''..'')"
    by (simp only: dot_segment_here_iff p)
  moreover have "regex_search False s = (\<exists>seg\<in>set ps. seg = ''.'' \<or> seg = ''..'')"
    by (simp only: regex_search_False ps list.sel)
  ultimately show ?thesis
    by (simp only: ps list.set ball_simps bex_simps)
qed

lemma INVALID_PREFIX_REGEX_spec: "INVALID_PREFIX_REGEX_test s = spec_invalid_prefix s"
proof -
  have "spec_invalid_prefix s =
      (alt1_here True s \<or> (\<exists>seg\<in>set (spec_segments s). seg = ''.'' \<or> seg = ''..''))"
    unfolding spec_invalid_prefix_def alt1_here_iff by blast
  then show ?thesis
    by (simp only: INVALID_PREFIX_REGEX_test_def regex_search_True some_segment_iff)
qed

subsection \<open>The order of the upfront checks\<close>

lemma host_chars_loop_spec:
  "host_chars_loop hs names = spec_first_failure (map (spec_check_host_chars hs) names)"
  by (induction names)
     (auto simp: spec_check_host_chars_def first_token_def split: option.splits)

lemma spec_first_failure_append:
  "spec_first_failure (cs @ ds) =
     (case spec_first_failure cs of Inl e \<Rightarrow> Inl e | Inr _ \<Rightarrow> spec_first_failure ds)"
  by (induction cs rule: spec_first_failure.induct) auto

lemma spec_first_failure_single:
  "spec_first_failure [c] = (case c of None \<Rightarrow> Inr () | Some e \<Rightarrow> Inl e)"
  by (cases c) auto

lemma validateHeaders_tail:
  "(if (case getFirstHeaderValue (map_option Str (originalGet hs ''x-forwarded-port'')) of
          None \<Rightarrow> False | Some p \<Rightarrow> p \<noteq> [] \<and> \<not> VALID_PORT_REGEX_test p)
    then Inl PortError
    else if (case getFirstHeaderValue (map_option Str (originalGet hs ''x-forwarded-proto'')) of
               None \<Rightarrow> False | Some p \<Rightarrow> p \<noteq> [] \<and> \<not> VALID_PROTO_REGEX_test p)
         then Inl ProtoError
         else if (case getFirstHeaderValue
                         (map_option Str (originalGet hs ''x-forwarded-prefix'')) of
                    None \<Rightarrow> False | Some p \<Rightarrow> p \<noteq> [] \<and> INVALID_PREFIX_REGEX_test p)
              then Inl PrefixError
              else Inr ())
   = spec_first_failure [spec_check_port hs, spec_check_proto hs, spec_check_prefix hs]"
  unfolding spec_check_port_def spec_check_proto_def spec_check_prefix_def first_token_def
  by (cases "getFirstHeaderValue (map_option Str (originalGet hs ''x-forwarded-port''))";
      cases "getFirstHeaderValue (map_option Str (originalGet hs ''x-forwarded-proto''))";
      cases "getFirstHeaderValue (map_option Str (originalGet hs ''x-forwarded-prefix''))")
     simp_all

lemma validateHeaders_spec:
  "validateHeaders req =
     spec_first_failure
       [spec_check_host_chars (headers req) ''host'',
        spec_check_host_chars (headers req) ''x-forwarded-host'',
        spec_check_port (headers req), spec_check_proto (headers req),
        spec_check_prefix (headers req)]"
proof -
  have "validateHeaders req =
      (case host_chars_loop (headers req) HOST_HEADERS_TO_VALIDATE of
         Inl e \<Rightarrow> Inl e
       | Inr _ \<Rightarrow> spec_first_failure
           [spec_check_port (headers req), spec_check_proto (headers req),
            spec_check_prefix (headers req)])"
    unfolding validateHeaders_def Let_def validateHeaders_tail ..
  also have "\<dots> = spec_first_failure
      (map (spec_check_host_chars (headers req)) HOST_HEADERS_TO_VALIDATE @
        [spec_check_port (headers req), spec_check_proto (headers req),
         spec_check_prefix (headers req)])"
    by (simp only: host_chars_loop_spec spec_first_failure_append)
  finally show ?thesis
    by (simp add: HOST_HEADERS_TO_VALIDATE_def)
qed

lemma validateRequest_first_failure:
  "validateRequest parse req allowedHosts =
     spec_first_failure
       [spec_check_host_chars (headers req) ''host'',
        spec_check_host_chars (headers req) ''x-forwarded-host'',
        spec_check_port (headers req),
        spec_check_proto (headers req),
        spec_check_prefix (headers req),
        spec_check_url parse req allowedHosts]"
proof -
  let ?hs = "[spec_check_host_chars (headers req) ''host'',
        spec_check_host_chars (headers req) ''x-forwarded-host'',
        spec_check_port (headers req),
        spec_check_proto (headers req),
        spec_check_prefix (headers req)]"
  have u: "(case parse (url req) of None \<Rightarrow> Inl InvalidUrl | Some u \<Rightarrow> validateUrl u allowedHosts)
      = spec_first_failure [spec_check_url parse req allowedHosts]"
    by (simp add: spec_check_url_def validateUrl_def split: option.splits)
  have "validateRequest parse req allowedHosts =
      (case spec_first_failure ?hs of Inl e \<Rightarrow> Inl e
       | Inr _ \<Rightarrow> spec_first_failure [spec_check_url parse req allowedHosts])"
    unfolding validateRequest_def validateHeaders_spec u ..
  also have "\<dots> = spec_first_failure (?hs @ [spec_check_url parse req allowedHosts])"
    by (simp only: spec_first_failure_append)
  finally show ?thesis by simp
qed

text \<open>
  C6. For every request and allow-list, \<^verbatim>\<open>validateRequest\<close> is the first failure of its
  checks taken in the fixed order: the character-class check of \<^verbatim>\<open>host\<close>, then of
  \<^verbatim>\<open>x-forwarded-host\<close>, then \<^verbatim>\<open>x-forwarded-port\<close>, \<^verbatim>\<open>x-forwarded-proto\<close>,
  \<^verbatim>\<open>x-forwarded-prefix\<close>, and last the URL hostname against the allow-list. The error of
  the first failing check is the result whatever the later checks would give, and when no
  check fails the result is the plain return: nothing partial is returned.
\<close>

theorem validateRequest_order:
  "validateRequest parse req allowedHosts =
     spec_first_failure
       [spec_check_host_chars (headers req) ''host'',
        spec_check_host_chars (headers req) ''x-forwarded-host'',
        spec_check_port (headers req),
        spec_check_proto (headers req),
        spec_check_prefix (headers req),
        spec_check_url parse req allowedHosts]"
  by (rule validateRequest_first_failure)

subsection \<open>The prefix rule in the upfront validator\<close>

lemma validateRequest_PrefixError_iff:
  "(validateRequest parse req allowedHosts = Inl PrefixError) =
     (validateHeaders req = Inl PrefixError)"
  by (auto simp: validateRequest_def validateUrl_def split: sum.splits option.splits)

lemma spec_check_prefix_iff:
  "first_token hs ''x-forwarded-prefix'' = Some t \<Longrightarrow>
     (spec_check_prefix hs = Some PrefixError) = spec_invalid_prefix t"
  by (cases t) (auto simp: spec_check_prefix_def INVALID_PREFIX_REGEX_spec spec_invalid_prefix_def)

lemma spec_check_prefix_cases:
  "spec_check_prefix hs = None \<or> spec_check_prefix hs = Some PrefixError"
  by (auto simp: spec_check_prefix_def split: option.splits)

lemma spec_check_host_chars_cases:
  "spec_check_host_chars hs n = None \<or> spec_check_host_chars hs n = Some (HostCharsError n)"
  by (auto simp: spec_check_host_chars_def split: option.splits)

lemma spec_check_port_cases:
  "spec_check_port hs = None \<or> spec_check_port hs = Some PortError"
  by (auto simp: spec_check_port_def split: option.splits)

lemma spec_check_proto_cases:
  "spec_check_proto hs = None \<or> spec_check_proto hs = Some ProtoError"
  by (auto simp: spec_check_proto_def split: option.splits)

lemma validateHeaders_PrefixError_imp:
  "validateHeaders req = Inl PrefixError \<Longrightarrow> spec_check_prefix (headers req) = Some PrefixError"
  unfolding validateHeaders_spec
  using spec_check_host_chars_cases [of "headers req" "''host''"]
    spec_check_host_chars_cases [of "headers req" "''x-forwarded-host''"]
    spec_check_port_cases [of "headers req"] spec_check_proto_cases [of "headers req"]
    spec_check_prefix_cases [of "headers req"]
  by auto

lemma validateHeaders_earlier_pass:
  "spec_check_host_chars (headers req) ''host'' = None \<Longrightarrow>
   spec_check_host_chars (headers req) ''x-forwarded-host'' = None \<Longrightarrow>
   spec_check_port (headers req) = None \<Longrightarrow>
   spec_check_proto (headers req) = None \<Longrightarrow>
   validateHeaders req = (case spec_check_prefix (headers req) of None \<Rightarrow> Inr () | Some e \<Rightarrow> Inl e)"
  unfolding validateHeaders_spec by (simp split: option.splits)

lemma prefix_only_evil:
  "validateHeaders \<lparr>url = u, headers = [(''x-forwarded-prefix'', ''//evil'')]\<rparr> = Inl PrefixError"
  by code_simp

lemma prefix_only_dotdot:
  "validateHeaders \<lparr>url = u, headers = [(''x-forwarded-prefix'', ''/app/../secret'')]\<rparr>
     = Inl PrefixError"
  by code_simp

lemma prefix_only_app:
  "validateHeaders \<lparr>url = u, headers = [(''x-forwarded-prefix'', ''/app'')]\<rparr> = Inr ()"
  by code_simp

text \<open>
  C7, as the code has it. For every request whose \<^verbatim>\<open>x-forwarded-prefix\<close> header has the
  first token \<open>t\<close>: \<^verbatim>\<open>validateRequest\<close> raises the prefix error only if \<open>t\<close> starts with
  two consecutive \<^verbatim>\<open>/\<close> or \<^verbatim>\<open>\\<close> characters or has a path segment \<^verbatim>\<open>.\<close> or \<^verbatim>\<open>..\<close>
  bounded by \<^verbatim>\<open>/\<close>, \<^verbatim>\<open>\\<close> or the string edges; and when the checks before it (host and
  x-forwarded-host characters, port, protocol) pass, it raises the prefix error exactly
  when \<open>t\<close> is such. With no other validated header, \<^verbatim>\<open>//evil\<close> and
  \<^verbatim>\<open>/app/../secret\<close> are rejected with the prefix error and \<^verbatim>\<open>/app\<close> passes the header
  checks.
\<close>

theorem prefix_rule:
  assumes "first_token (headers req) ''x-forwarded-prefix'' = Some t"
  shows "(validateRequest parse req allowedHosts = Inl PrefixError \<longrightarrow> spec_invalid_prefix t)
    \<and> (spec_check_host_chars (headers req) ''host'' = None
         \<and> spec_check_host_chars (headers req) ''x-forwarded-host'' = None
         \<and> spec_check_port (headers req) = None
         \<and> spec_check_proto (headers req) = None
       \<longrightarrow> (validateRequest parse req allowedHosts = Inl PrefixError) = spec_invalid_prefix t)
    \<and> validateRequest parse \<lparr>url = u, headers = [(''x-forwarded-prefix'', ''//evil'')]\<rparr>
          allowedHosts = Inl PrefixError
    \<and> validateRequest parse \<lparr>url = u, headers = [(''x-forwarded-prefix'', ''/app/../secret'')]\<rparr>
          allowedHosts = Inl PrefixError
    \<and> validateHeaders \<lparr>url = u, headers = [(''x-forwarded-prefix'', ''/app'')]\<rparr> = Inr ()
    \<and> validateRequest parse \<lparr>url = u, headers = [(''x-forwarded-prefix'', ''/app'')]\<rparr>
          allowedHosts \<noteq> Inl PrefixError"
proof -
  have a: "validateRequest parse req allowedHosts = Inl PrefixError \<longrightarrow> spec_invalid_prefix t"
    using validateHeaders_PrefixError_imp [of req] spec_check_prefix_iff [OF assms]
    by (simp add: validateRequest_PrefixError_iff)
  have b: "spec_check_host_chars (headers req) ''host'' = None
         \<and> spec_check_host_chars (headers req) ''x-forwarded-host'' = None
         \<and> spec_check_port (headers req) = None
         \<and> spec_check_proto (headers req) = None
       \<longrightarrow> (validateRequest parse req allowedHosts = Inl PrefixError) = spec_invalid_prefix t"
  proof
    assume h: "spec_check_host_chars (headers req) ''host'' = None
         \<and> spec_check_host_chars (headers req) ''x-forwarded-host'' = None
         \<and> spec_check_port (headers req) = None
         \<and> spec_check_proto (headers req) = None"
    then have "validateHeaders req =
        (case spec_check_prefix (headers req) of None \<Rightarrow> Inr () | Some e \<Rightarrow> Inl e)"
      by (simp add: validateHeaders_earlier_pass)
    then have "(validateHeaders req = Inl PrefixError) =
        (spec_check_prefix (headers req) = Some PrefixError)"
      by (simp split: option.splits)
    then show "(validateRequest parse req allowedHosts = Inl PrefixError) = spec_invalid_prefix t"
      by (simp only: validateRequest_PrefixError_iff spec_check_prefix_iff [OF assms])
  qed
  have c: "validateRequest parse \<lparr>url = u, headers = [(''x-forwarded-prefix'', ''//evil'')]\<rparr>
          allowedHosts = Inl PrefixError"
    by (simp only: validateRequest_PrefixError_iff prefix_only_evil)
  have d: "validateRequest parse \<lparr>url = u, headers = [(''x-forwarded-prefix'', ''/app/../secret'')]\<rparr>
          allowedHosts = Inl PrefixError"
    by (simp only: validateRequest_PrefixError_iff prefix_only_dotdot)
  have e: "validateRequest parse \<lparr>url = u, headers = [(''x-forwarded-prefix'', ''/app'')]\<rparr>
          allowedHosts \<noteq> Inl PrefixError"
    by (simp add: validateRequest_PrefixError_iff prefix_only_app)
  from a b c d e prefix_only_app show ?thesis by blast
qed

theorem prefix_rule_witness:
  "first_token [(''host'', ''a.example.com''), (''x-forwarded-prefix'', ''/app/./x , /y'')]
      ''x-forwarded-prefix'' = Some ''/app/./x''
   \<and> spec_check_host_chars [(''host'', ''a.example.com''), (''x-forwarded-prefix'', ''/app/./x , /y'')] ''host'' = None
   \<and> spec_invalid_prefix ''/app/./x''
   \<and> validateRequest URL_parse
        \<lparr>url = ''https://a.example.com/'',
         headers = [(''host'', ''a.example.com''), (''x-forwarded-prefix'', ''/app/./x , /y'')]\<rparr>
        [''*.example.com''] = Inl PrefixError"
proof -
  let ?hs = "[(''host'', ''a.example.com''), (''x-forwarded-prefix'', ''/app/./x , /y'')]"
  let ?req = "\<lparr>url = ''https://a.example.com/'', headers = ?hs\<rparr>"
  have t: "first_token (headers ?req) ''x-forwarded-prefix'' = Some ''/app/./x''"
    by code_simp
  have h: "spec_check_host_chars (headers ?req) ''host'' = None"
    "spec_check_host_chars (headers ?req) ''x-forwarded-host'' = None"
    "spec_check_port (headers ?req) = None"
    "spec_check_proto (headers ?req) = None"
    by code_simp+
  have s: "spec_invalid_prefix ''/app/./x''"
    by code_simp
  from prefix_rule [OF t, of URL_parse "[''*.example.com'']"] h s
  have "validateRequest URL_parse ?req [''*.example.com''] = Inl PrefixError"
    by blast
  with t h(1) s show ?thesis by simp
qed

text \<open>A request with \<^verbatim>\<open>x-forwarded-port: 80a\<close> and \<^verbatim>\<open>x-forwarded-prefix: //evil\<close>: the
  prefix starts with two slashes, and the error raised is the port error, since the port
  is checked first.\<close>

theorem prefix_rule_counterexample:
  "originalGet [(''x-forwarded-port'', ''80a''), (''x-forwarded-prefix'', ''//evil'')]
      ''x-forwarded-prefix'' = Some ''//evil''
   \<and> first_token [(''x-forwarded-port'', ''80a''), (''x-forwarded-prefix'', ''//evil'')]
      ''x-forwarded-prefix'' = Some ''//evil''
   \<and> spec_invalid_prefix ''//evil''
   \<and> validateRequest URL_parse
        \<lparr>url = ''https://allowed.example.com/page'',
         headers = [(''x-forwarded-port'', ''80a''), (''x-forwarded-prefix'', ''//evil'')]\<rparr>
        [''*.example.com''] = Inl PortError"
  by code_simp

subsection \<open>The patched reads\<close>

lemma toLowerCase_host: "toLowerCase ''host'' = ''host''"
  by code_simp

lemma toLowerCase_x_forwarded_host: "toLowerCase ''x-forwarded-host'' = ''x-forwarded-host''"
  by code_simp

lemma sensitive_names:
  "toLowerCase ''host'' \<in> set HOST_HEADERS_TO_VALIDATE"
  "toLowerCase ''x-forwarded-host'' \<in> set HOST_HEADERS_TO_VALIDATE"
  by (simp_all add: toLowerCase_host toLowerCase_x_forwarded_host HOST_HEADERS_TO_VALIDATE_def)

lemma verifyHostAllowed_token:
  assumes "getFirstHeaderValue (Some (Str s)) = Some t" and "t \<noteq> []"
  shows "verifyHostAllowed parse name s allowedHosts =
     (case parse (''http://'' @ t) of
        None \<Rightarrow> Inl (HeaderUnparsable name)
      | Some u \<Rightarrow> if isHostAllowed (hostname u) allowedHosts then Inr ()
                  else Inl (HeaderNotAllowed name t))"
  using assms by (simp add: verifyHostAllowed_def split: option.splits)

lemma verifyHostAllowed_empty_token:
  "getFirstHeaderValue (Some (Str s)) = Some [] \<Longrightarrow>
     verifyHostAllowed parse name s allowedHosts = Inr ()"
  by (simp add: verifyHostAllowed_def)

lemma validateHeader_not_sensitive:
  "toLowerCase name \<notin> set HOST_HEADERS_TO_VALIDATE \<Longrightarrow>
     validateHeader parse name v allowedHosts p = (Inr (), p)"
  by (simp add: validateHeader_def split: option.splits)

lemma validateHeader_falsy:
  "v = None \<or> v = Some [] \<Longrightarrow> validateHeader parse name v allowedHosts p = (Inr (), p)"
  by (auto simp: validateHeader_def)

lemma validateHeader_sensitive:
  "toLowerCase name \<in> set HOST_HEADERS_TO_VALIDATE \<Longrightarrow> s \<noteq> [] \<Longrightarrow>
     validateHeader parse name (Some s) allowedHosts p =
       (case verifyHostAllowed parse name s allowedHosts of
          Inl e \<Rightarrow> (Inl e, onError e p)
        | Inr _ \<Rightarrow> (Inr (), p))"
  by (simp add: validateHeader_def)

lemma validateHeader_cases:
  obtains (raised) e s where "validateHeader parse name v allowedHosts p = (Inl e, onError e p)"
      "v = Some s" "s \<noteq> []" "toLowerCase name \<in> set HOST_HEADERS_TO_VALIDATE"
      "verifyHostAllowed parse name s allowedHosts = Inl e"
    | (passed) "validateHeader parse name v allowedHosts p = (Inr (), p)"
proof (cases "\<exists>s. v = Some s \<and> s \<noteq> [] \<and> toLowerCase name \<in> set HOST_HEADERS_TO_VALIDATE")
  case True
  then obtain s where s: "v = Some s" "s \<noteq> []"
      "toLowerCase name \<in> set HOST_HEADERS_TO_VALIDATE" by blast
  show ?thesis
  proof (cases "verifyHostAllowed parse name s allowedHosts")
    case (Inl e)
    with s have "validateHeader parse name v allowedHosts p = (Inl e, onError e p)"
      by (simp add: validateHeader_sensitive)
    then show ?thesis using s Inl by (rule raised)
  next
    case (Inr u)
    with s have "validateHeader parse name v allowedHosts p = (Inr (), p)"
      by (simp add: validateHeader_sensitive)
    then show ?thesis by (rule passed)
  qed
next
  case False
  then have "validateHeader parse name v allowedHosts p = (Inr (), p)"
    by (cases v) (auto simp: validateHeader_def)
  then show ?thesis by (rule passed)
qed

lemma patched_get_absent:
  "originalGet hs name = None \<Longrightarrow> patched_get parse hs allowedHosts name p = (Inr None, p)"
  by (simp add: patched_get_def)

lemma patched_get_empty:
  "originalGet hs name = Some [] \<Longrightarrow>
     patched_get parse hs allowedHosts name p = (Inr (Some []), p)"
  by (simp add: patched_get_def)

lemma patched_get_validates:
  "originalGet hs name = Some s \<Longrightarrow> s \<noteq> [] \<Longrightarrow>
     patched_get parse hs allowedHosts name p =
       (case validateHeader parse name (Some s) allowedHosts p of
          (Inl e, p') \<Rightarrow> (Inl e, p')
        | (Inr _, p') \<Rightarrow> (Inr (Some s), p'))"
  by (simp add: patched_get_def Let_def)

lemma patched_get_sensitive:
  "originalGet hs name = Some s \<Longrightarrow> s \<noteq> [] \<Longrightarrow>
   toLowerCase name \<in> set HOST_HEADERS_TO_VALIDATE \<Longrightarrow>
     patched_get parse hs allowedHosts name p =
       (case verifyHostAllowed parse name s allowedHosts of
          Inl e \<Rightarrow> (Inl e, onError e p)
        | Inr _ \<Rightarrow> (Inr (Some s), p))"
  by (simp add: patched_get_validates validateHeader_sensitive split: sum.splits)

lemma patched_get_not_sensitive:
  "toLowerCase name \<notin> set HOST_HEADERS_TO_VALIDATE \<Longrightarrow>
     patched_get parse hs allowedHosts name p = (Inr (originalGet hs name), p)"
  by (simp add: patched_get_def Let_def validateHeader_not_sensitive split: option.splits)

lemma patched_get_cases:
  obtains (raised) e s where "patched_get parse hs allowedHosts name p = (Inl e, onError e p)"
      "originalGet hs name = Some s" "s \<noteq> []"
      "toLowerCase name \<in> set HOST_HEADERS_TO_VALIDATE"
      "verifyHostAllowed parse name s allowedHosts = Inl e"
    | (passed) "patched_get parse hs allowedHosts name p = (Inr (originalGet hs name), p)"
proof (cases "originalGet hs name")
  case None
  then show ?thesis using passed by (simp add: patched_get_absent)
next
  case (Some s)
  show ?thesis
  proof (cases "s = []")
    case True
    with Some show ?thesis using passed by (simp add: patched_get_empty)
  next
    case False
    show ?thesis
    proof (cases rule: validateHeader_cases [of parse name "Some s" allowedHosts p])
      case (raised e s')
      with Some False show ?thesis
        using that(1) [of e s] by (simp add: patched_get_validates)
    next
      case passed
      with Some False show ?thesis
        using that(2) by (simp add: patched_get_validates)
    qed
  qed
qed

lemma entries_next_done: "entries_next parse allowedHosts [] p = (Inr None, [], p)"
  by (simp add: entries_next_def)

lemma entries_next_sensitive:
  "toLowerCase k \<in> set HOST_HEADERS_TO_VALIDATE \<Longrightarrow> v \<noteq> [] \<Longrightarrow>
     entries_next parse allowedHosts ((k, v) # rest) p =
       (case verifyHostAllowed parse k v allowedHosts of
          Inl e \<Rightarrow> (Inl e, rest, onError e p)
        | Inr _ \<Rightarrow> (Inr (Some (k, v)), rest, p))"
  by (simp add: entries_next_def validateHeader_sensitive split: sum.splits)

lemma entries_next_not_sensitive:
  "toLowerCase k \<notin> set HOST_HEADERS_TO_VALIDATE \<or> v = [] \<Longrightarrow>
     entries_next parse allowedHosts ((k, v) # rest) p = (Inr (Some (k, v)), rest, p)"
  by (auto simp: entries_next_def validateHeader_not_sensitive validateHeader_falsy)

lemma entries_next_cases:
  obtains (raised) e where
      "entries_next parse allowedHosts ((k, v) # rest) p = (Inl e, rest, onError e p)"
      "v \<noteq> []" "toLowerCase k \<in> set HOST_HEADERS_TO_VALIDATE"
      "verifyHostAllowed parse k v allowedHosts = Inl e"
    | (passed)
      "entries_next parse allowedHosts ((k, v) # rest) p = (Inr (Some (k, v)), rest, p)"
proof (cases rule: validateHeader_cases [of parse k "Some v" allowedHosts p])
  case (raised e s)
  then show ?thesis using that(1) [of e] by (simp add: entries_next_def)
next
  case passed
  then show ?thesis using that(2) by (simp add: entries_next_def)
qed

lemma patched_values_unfold:
  "patched_values parse hs allowedHosts p =
     (case validateHeader parse ''host'' (originalGet hs ''host'') allowedHosts p of
        (Inl e, p') \<Rightarrow> (Inl e, p')
      | (Inr _, p') \<Rightarrow>
          (case validateHeader parse ''x-forwarded-host'' (originalGet hs ''x-forwarded-host'')
                  allowedHosts p' of
             (Inl e, p'') \<Rightarrow> (Inl e, p'')
           | (Inr _, p'') \<Rightarrow> (Inr (originalValues hs), p'')))"
  by (simp add: patched_values_def HOST_HEADERS_TO_VALIDATE_def split: prod.splits sum.splits)

lemma patched_values_cases:
  obtains (raised) e n s where
      "patched_values parse hs allowedHosts p = (Inl e, onError e p)"
      "n \<in> set HOST_HEADERS_TO_VALIDATE" "originalGet hs n = Some s" "s \<noteq> []"
      "verifyHostAllowed parse n s allowedHosts = Inl e"
    | (passed) "patched_values parse hs allowedHosts p = (Inr (originalValues hs), p)"
proof (cases rule: validateHeader_cases [of parse "''host''" "originalGet hs ''host''" allowedHosts p])
  case (raised e s)
  then show ?thesis
    using that(1) [of e "''host''" s]
    by (simp add: patched_values_unfold HOST_HEADERS_TO_VALIDATE_def)
next
  case passed
  note h = this
  show ?thesis
  proof (cases rule: validateHeader_cases
      [of parse "''x-forwarded-host''" "originalGet hs ''x-forwarded-host''" allowedHosts p])
    case (raised e s)
    then show ?thesis
      using that(1) [of e "''x-forwarded-host''" s] h
      by (simp add: patched_values_unfold HOST_HEADERS_TO_VALIDATE_def)
  next
    case passed
    then show ?thesis
      using that(2) h by (simp add: patched_values_unfold)
  qed
qed

subsection \<open>Violations in the deferred path\<close>

lemma onError_pending: "onError e None = Some e"
  by (simp add: onError_def)

lemma patched_get_mirror:
  "(case patched_get parse hs allowedHosts name p of
      (Inl e, p') \<Rightarrow> p' = onError e p \<and>
         (\<exists>s. originalGet hs name = Some s \<and> verifyHostAllowed parse name s allowedHosts = Inl e)
    | (Inr v, p') \<Rightarrow> p' = p)"
  by (cases rule: patched_get_cases [of parse hs allowedHosts name p]) simp_all

lemma patched_values_mirror:
  "(case patched_values parse hs allowedHosts p of
      (Inl e, p') \<Rightarrow> p' = onError e p \<and>
         (\<exists>n s. n \<in> set HOST_HEADERS_TO_VALIDATE \<and> originalGet hs n = Some s
            \<and> verifyHostAllowed parse n s allowedHosts = Inl e)
    | (Inr vs, p') \<Rightarrow> p' = p)"
proof (cases rule: patched_values_cases [of parse hs allowedHosts p])
  case (raised e n s)
  then show ?thesis by auto
next
  case passed
  then show ?thesis by simp
qed

lemma entries_next_mirror:
  "(case entries_next parse allowedHosts it p of
      (Inl e, it', p') \<Rightarrow> p' = onError e p \<and>
         (\<exists>k v. it = (k, v) # it' \<and> verifyHostAllowed parse k v allowedHosts = Inl e)
    | (Inr kv, it', p') \<Rightarrow> p' = p)"
proof (cases it)
  case Nil
  then show ?thesis by (simp add: entries_next_done)
next
  case (Cons kv rest)
  obtain k v where kv: "kv = (k, v)" by (cases kv)
  show ?thesis
    by (cases rule: entries_next_cases [of parse allowedHosts k v rest p])
       (simp_all add: Cons kv)
qed

lemma patched_values_host_raises:
  assumes "originalGet hs ''host'' = Some s" "s \<noteq> []"
    "verifyHostAllowed parse ''host'' s allowedHosts = Inl e"
  shows "patched_values parse hs allowedHosts p = (Inl e, onError e p)"
  using assms sensitive_names(1)
  by (simp add: patched_values_unfold validateHeader_sensitive)

text \<open>
  C5. In the deferred path every patched read (\<^verbatim>\<open>get\<close>, \<^verbatim>\<open>values\<close>, a step of
  \<^verbatim>\<open>entries\<close>) that raises an error \<open>e\<close> raises the error \<^verbatim>\<open>verifyHostAllowed\<close> threw
  on a header it read, and has called \<^verbatim>\<open>onError\<close> with the same \<open>e\<close>; on a pending
  promise, as \<^verbatim>\<open>cloneRequestAndPatchHeaders\<close> returns it, that resolves it with \<open>e\<close>, so
  the first violation both resolves the promise and is raised at the read. A read that returns (its value passes, or is not sensitive)
  leaves the promise as it was.
\<close>

theorem deferred_violation_mirrored:
  "(case patched_get parse hs allowedHosts name p of
      (Inl e, p') \<Rightarrow> p' = onError e p \<and>
         (\<exists>s. originalGet hs name = Some s \<and> verifyHostAllowed parse name s allowedHosts = Inl e)
    | (Inr v, p') \<Rightarrow> p' = p)
   \<and> (case patched_values parse hs allowedHosts p of
      (Inl e, p') \<Rightarrow> p' = onError e p \<and>
         (\<exists>n s. n \<in> set HOST_HEADERS_TO_VALIDATE \<and> originalGet hs n = Some s
            \<and> verifyHostAllowed parse n s allowedHosts = Inl e)
    | (Inr vs, p') \<Rightarrow> p' = p)
   \<and> (case entries_next parse allowedHosts it p of
      (Inl e, it', p') \<Rightarrow> p' = onError e p \<and>
         (\<exists>k v. it = (k, v) # it' \<and> verifyHostAllowed parse k v allowedHosts = Inl e)
    | (Inr kv, it', p') \<Rightarrow> p' = p)
   \<and> snd (cloneRequestAndPatchHeaders req) = None
   \<and> onError err None = Some err
   \<and> (toLowerCase name \<in> set HOST_HEADERS_TO_VALIDATE \<and> s \<noteq> []
        \<and> verifyHostAllowed parse name s allowedHosts = Inl err
      \<longrightarrow> (originalGet hs name = Some s
             \<longrightarrow> patched_get parse hs allowedHosts name None = (Inl err, Some err))
          \<and> entries_next parse allowedHosts ((name, s) # rest) None = (Inl err, rest, Some err))
   \<and> (originalGet hs ''host'' = Some s \<and> s \<noteq> []
        \<and> verifyHostAllowed parse ''host'' s allowedHosts = Inl err
      \<longrightarrow> patched_values parse hs allowedHosts None = (Inl err, Some err))"
proof -
  have i: "snd (cloneRequestAndPatchHeaders req) = None"
    by (simp add: cloneRequestAndPatchHeaders_def)
  have a: "toLowerCase name \<in> set HOST_HEADERS_TO_VALIDATE \<and> s \<noteq> []
        \<and> verifyHostAllowed parse name s allowedHosts = Inl err
      \<longrightarrow> (originalGet hs name = Some s
             \<longrightarrow> patched_get parse hs allowedHosts name None = (Inl err, Some err))
          \<and> entries_next parse allowedHosts ((name, s) # rest) None = (Inl err, rest, Some err)"
    by (simp add: patched_get_sensitive entries_next_sensitive onError_pending)
  have b: "originalGet hs ''host'' = Some s \<and> s \<noteq> []
        \<and> verifyHostAllowed parse ''host'' s allowedHosts = Inl err
      \<longrightarrow> patched_values parse hs allowedHosts None = (Inl err, Some err)"
    by (simp add: patched_values_host_raises onError_pending)
  show ?thesis
    by (intro conjI patched_get_mirror patched_values_mirror entries_next_mirror
        onError_pending i a b)
qed

lemma URL_parse_bad_host: "URL_parse ''http://bad host'' = None"
  by (simp add: URL_parse_def strip_scheme_def ascii_lower_def c0_control_or_space_def
      tab_or_newline_def is_sep_def is_digit_def decimal_def forbidden_domain_code_point_def)

lemma URL_parse_attacker:
  "URL_parse ''http://attacker.com'' = Some \<lparr>hostname = ''attacker.com''\<rparr>"
  by (simp add: URL_parse_def strip_scheme_def ascii_lower_def c0_control_or_space_def
      tab_or_newline_def is_sep_def is_digit_def decimal_def forbidden_domain_code_point_def)

lemma URL_parse_allowed:
  "URL_parse ''https://allowed.example.com/page'' = Some \<lparr>hostname = ''allowed.example.com''\<rparr>"
  by (simp add: URL_parse_def strip_scheme_def ascii_lower_def c0_control_or_space_def
      tab_or_newline_def is_sep_def is_digit_def decimal_def forbidden_domain_code_point_def)

lemma URL_parse_api_path:
  "URL_parse ''http://api.example.com/x'' = Some \<lparr>hostname = ''api.example.com''\<rparr>"
  by (simp add: URL_parse_def strip_scheme_def ascii_lower_def c0_control_or_space_def
      tab_or_newline_def is_sep_def is_digit_def decimal_def forbidden_domain_code_point_def)

lemma token_bad_host: "getFirstHeaderValue (Some (Str ''bad host'')) = Some ''bad host''"
  by (simp add: getFirstHeaderValue_Some trim_def is_white_space_def)

lemma token_attacker: "getFirstHeaderValue (Some (Str ''attacker.com'')) = Some ''attacker.com''"
  by (simp add: getFirstHeaderValue_Some trim_def is_white_space_def)

lemma token_api_path:
  "getFirstHeaderValue (Some (Str ''api.example.com/x'')) = Some ''api.example.com/x''"
  by (simp add: getFirstHeaderValue_Some trim_def is_white_space_def)

lemma token_empty: "getFirstHeaderValue (Some (Str [])) = Some []"
  by (simp add: getFirstHeaderValue_Some trim_def)

lemma bad_host_unparsable:
  "verifyHostAllowed URL_parse name ''bad host'' allowedHosts = Inl (HeaderUnparsable name)"
  by (simp add: verifyHostAllowed_token [OF token_bad_host] URL_parse_bad_host)

lemma attacker_not_allowed:
  "verifyHostAllowed URL_parse name ''attacker.com'' [''*.example.com'']
     = Inl (HeaderNotAllowed name ''attacker.com'')"
  by (simp add: verifyHostAllowed_token [OF token_attacker] URL_parse_attacker
      isHostAllowed_def startsWith_def endsWith_def)

lemma api_path_allowed:
  "verifyHostAllowed URL_parse name ''api.example.com/x'' [''*.example.com''] = Inr ()"
  by (simp add: verifyHostAllowed_token [OF token_api_path] URL_parse_api_path
      isHostAllowed_def startsWith_def endsWith_def)

lemma originalGet_single:
  "toLowerCase name = k \<Longrightarrow> originalGet [(k, v)] name = Some v"
  by (simp add: originalGet_def)

theorem deferred_violation_mirrored_witness:
  "originalGet [(''x-forwarded-host'', ''bad host'')] ''x-forwarded-host'' = Some ''bad host''
   \<and> verifyHostAllowed URL_parse ''x-forwarded-host'' ''bad host'' [''*.example.com'']
        = Inl (HeaderUnparsable ''x-forwarded-host'')
   \<and> patched_get URL_parse [(''x-forwarded-host'', ''bad host'')] [''*.example.com'']
        ''x-forwarded-host'' None
      = (Inl (HeaderUnparsable ''x-forwarded-host''), Some (HeaderUnparsable ''x-forwarded-host''))"
proof -
  have g: "originalGet [(''x-forwarded-host'', ''bad host'')] ''x-forwarded-host'' = Some ''bad host''"
    by (simp add: originalGet_single toLowerCase_x_forwarded_host)
  have n: "''bad host'' \<noteq> []" by simp
  from deferred_violation_mirrored
    [where parse = URL_parse and hs = "[(''x-forwarded-host'', ''bad host'')]"
      and allowedHosts = "[''*.example.com'']" and name = "''x-forwarded-host''"
      and s = "''bad host''" and err = "HeaderUnparsable ''x-forwarded-host''"]
    sensitive_names(2) g n bad_host_unparsable
  show ?thesis by blast
qed

subsection \<open>Which reads are validated\<close>

lemma toLowerCase_Host: "toLowerCase ''Host'' = ''host''"
  by code_simp

lemma toLowerCase_HOST: "toLowerCase ''HOST'' = ''host''"
  by code_simp

lemma toLowerCase_X_Forwarded_Host: "toLowerCase ''X-Forwarded-Host'' = ''x-forwarded-host''"
  by code_simp

lemma toLowerCase_accept: "toLowerCase ''Accept'' = ''accept''"
  by code_simp

lemma originalGet_lowered:
  "toLowerCase name = toLowerCase name' \<Longrightarrow> originalGet hs name = originalGet hs name'"
  by (simp add: originalGet_def)

lemma validateHeader_sensitive_any:
  assumes "toLowerCase name \<in> set HOST_HEADERS_TO_VALIDATE"
  shows "validateHeader parse name (Some s) allowedHosts p =
       (case verifyHostAllowed parse name s allowedHosts of
          Inl e \<Rightarrow> (Inl e, onError e p)
        | Inr _ \<Rightarrow> (Inr (), p))"
proof (cases "s = []")
  case True
  then show ?thesis
    by (simp add: validateHeader_falsy verifyHostAllowed_empty_token token_empty)
next
  case False
  with assms show ?thesis by (rule validateHeader_sensitive)
qed

lemma patched_get_sensitive_any:
  assumes "toLowerCase name \<in> set HOST_HEADERS_TO_VALIDATE" "originalGet hs name = Some s"
  shows "patched_get parse hs allowedHosts name p =
       (case verifyHostAllowed parse name s allowedHosts of
          Inl e \<Rightarrow> (Inl e, onError e p)
        | Inr _ \<Rightarrow> (Inr (Some s), p))"
proof (cases "s = []")
  case True
  with assms show ?thesis
    by (simp add: patched_get_empty verifyHostAllowed_empty_token token_empty)
next
  case False
  with assms show ?thesis by (simp add: patched_get_sensitive)
qed

lemma entries_next_sensitive_any:
  assumes "toLowerCase k \<in> set HOST_HEADERS_TO_VALIDATE"
  shows "entries_next parse allowedHosts ((k, v) # rest) p =
       (case verifyHostAllowed parse k v allowedHosts of
          Inl e \<Rightarrow> (Inl e, rest, onError e p)
        | Inr _ \<Rightarrow> (Inr (Some (k, v)), rest, p))"
proof (cases "v = []")
  case True
  then show ?thesis
    by (simp add: entries_next_not_sensitive verifyHostAllowed_empty_token token_empty)
next
  case False
  with assms show ?thesis by (simp add: entries_next_sensitive)
qed

text \<open>
  C9. In the patched clone the lower-cased header name decides whether a read is
  validated. A read of a header whose lower-cased name is not \<^verbatim>\<open>host\<close> or
  \<^verbatim>\<open>x-forwarded-host\<close> never raises and leaves the promise untouched, whatever the
  value. A read of a header whose name is \<^verbatim>\<open>host\<close> or \<^verbatim>\<open>x-forwarded-host\<close>
  in any letter case (\<^verbatim>\<open>Host\<close>, \<^verbatim>\<open>HOST\<close>, \<^verbatim>\<open>X-Forwarded-Host\<close>) runs
  \<^verbatim>\<open>verifyHostAllowed\<close> on the value, and the lookup finds the same value as for the
  lower-case name.
\<close>

theorem validation_decided_by_lowercased_name:
  "(toLowerCase name \<notin> set HOST_HEADERS_TO_VALIDATE \<longrightarrow>
       validateHeader parse name v allowedHosts p = (Inr (), p)
     \<and> patched_get parse hs allowedHosts name p = (Inr (originalGet hs name), p)
     \<and> entries_next parse allowedHosts ((name, x) # rest) p = (Inr (Some (name, x)), rest, p))
   \<and> (toLowerCase name \<in> set HOST_HEADERS_TO_VALIDATE \<longrightarrow>
       validateHeader parse name (Some s) allowedHosts p =
         (case verifyHostAllowed parse name s allowedHosts of
            Inl e \<Rightarrow> (Inl e, onError e p) | Inr _ \<Rightarrow> (Inr (), p))
     \<and> (originalGet hs name = Some s \<longrightarrow>
          patched_get parse hs allowedHosts name p =
            (case verifyHostAllowed parse name s allowedHosts of
               Inl e \<Rightarrow> (Inl e, onError e p) | Inr _ \<Rightarrow> (Inr (Some s), p)))
     \<and> entries_next parse allowedHosts ((name, s) # rest) p =
          (case verifyHostAllowed parse name s allowedHosts of
             Inl e \<Rightarrow> (Inl e, rest, onError e p) | Inr _ \<Rightarrow> (Inr (Some (name, s)), rest, p)))
   \<and> (toLowerCase name = ''host'' \<or> toLowerCase name = ''x-forwarded-host''
        \<longrightarrow> toLowerCase name \<in> set HOST_HEADERS_TO_VALIDATE
          \<and> originalGet hs name = originalGet hs (toLowerCase name))
   \<and> toLowerCase ''Host'' = ''host'' \<and> toLowerCase ''HOST'' = ''host''
   \<and> toLowerCase ''X-Forwarded-Host'' = ''x-forwarded-host''"
proof -
  have a: "toLowerCase name \<notin> set HOST_HEADERS_TO_VALIDATE \<longrightarrow>
       validateHeader parse name v allowedHosts p = (Inr (), p)
     \<and> patched_get parse hs allowedHosts name p = (Inr (originalGet hs name), p)
     \<and> entries_next parse allowedHosts ((name, x) # rest) p = (Inr (Some (name, x)), rest, p)"
    by (simp add: validateHeader_not_sensitive patched_get_not_sensitive
        entries_next_not_sensitive)
  have b: "toLowerCase name \<in> set HOST_HEADERS_TO_VALIDATE \<longrightarrow>
       validateHeader parse name (Some s) allowedHosts p =
         (case verifyHostAllowed parse name s allowedHosts of
            Inl e \<Rightarrow> (Inl e, onError e p) | Inr _ \<Rightarrow> (Inr (), p))
     \<and> (originalGet hs name = Some s \<longrightarrow>
          patched_get parse hs allowedHosts name p =
            (case verifyHostAllowed parse name s allowedHosts of
               Inl e \<Rightarrow> (Inl e, onError e p) | Inr _ \<Rightarrow> (Inr (Some s), p)))
     \<and> entries_next parse allowedHosts ((name, s) # rest) p =
          (case verifyHostAllowed parse name s allowedHosts of
             Inl e \<Rightarrow> (Inl e, rest, onError e p) | Inr _ \<Rightarrow> (Inr (Some (name, s)), rest, p))"
    by (simp add: validateHeader_sensitive_any patched_get_sensitive_any
        entries_next_sensitive_any)
  have c: "toLowerCase name = ''host'' \<or> toLowerCase name = ''x-forwarded-host''
        \<longrightarrow> toLowerCase name \<in> set HOST_HEADERS_TO_VALIDATE
          \<and> originalGet hs name = originalGet hs (toLowerCase name)"
  proof
    assume h: "toLowerCase name = ''host'' \<or> toLowerCase name = ''x-forwarded-host''"
    then have "toLowerCase (toLowerCase name) = toLowerCase name"
      using toLowerCase_host toLowerCase_x_forwarded_host by auto
    then have "originalGet hs name = originalGet hs (toLowerCase name)"
      by (simp add: originalGet_def)
    moreover from h have "toLowerCase name \<in> set HOST_HEADERS_TO_VALIDATE"
      by (auto simp: HOST_HEADERS_TO_VALIDATE_def)
    ultimately show "toLowerCase name \<in> set HOST_HEADERS_TO_VALIDATE
          \<and> originalGet hs name = originalGet hs (toLowerCase name)" by simp
  qed
  show ?thesis
    by (intro conjI a b c toLowerCase_Host toLowerCase_HOST toLowerCase_X_Forwarded_Host)
qed

theorem validation_decided_by_lowercased_name_witness:
  "toLowerCase ''Accept'' \<notin> set HOST_HEADERS_TO_VALIDATE
   \<and> patched_get URL_parse [(''accept'', ''bad host''), (''host'', ''attacker.com'')]
        [''*.example.com''] ''Accept'' None = (Inr (Some ''bad host''), None)
   \<and> toLowerCase ''HOST'' \<in> set HOST_HEADERS_TO_VALIDATE
   \<and> patched_get URL_parse [(''accept'', ''bad host''), (''host'', ''attacker.com'')]
        [''*.example.com''] ''HOST'' None
      = (Inl (HeaderNotAllowed ''HOST'' ''attacker.com''),
         Some (HeaderNotAllowed ''HOST'' ''attacker.com''))"
proof -
  let ?hs = "[(''accept'', ''bad host''), (''host'', ''attacker.com'')]"
  have n: "toLowerCase ''Accept'' \<notin> set HOST_HEADERS_TO_VALIDATE"
    by (simp add: toLowerCase_accept HOST_HEADERS_TO_VALIDATE_def)
  have y: "toLowerCase ''HOST'' \<in> set HOST_HEADERS_TO_VALIDATE"
    by (simp add: toLowerCase_HOST HOST_HEADERS_TO_VALIDATE_def)
  have ga: "originalGet ?hs ''Accept'' = Some ''bad host''"
    by (simp add: originalGet_def toLowerCase_accept)
  have gh: "originalGet ?hs ''HOST'' = Some ''attacker.com''"
    by (simp add: originalGet_def toLowerCase_HOST)
  have 1: "patched_get URL_parse ?hs [''*.example.com''] ''Accept'' None
      = (Inr (Some ''bad host''), None)"
    using validation_decided_by_lowercased_name
      [where name = "''Accept''" and parse = URL_parse and hs = ?hs
        and allowedHosts = "[''*.example.com'']" and p = None] n ga
    by simp
  have 2: "patched_get URL_parse ?hs [''*.example.com''] ''HOST'' None
      = (Inl (HeaderNotAllowed ''HOST'' ''attacker.com''),
         Some (HeaderNotAllowed ''HOST'' ''attacker.com''))"
    using validation_decided_by_lowercased_name
      [where name = "''HOST''" and parse = URL_parse and hs = ?hs and s = "''attacker.com''"
        and allowedHosts = "[''*.example.com'']" and p = None] y gh
    by (simp add: attacker_not_allowed onError_pending)
  from n y 1 2 show ?thesis by blast
qed

subsection \<open>Missing and empty values\<close>

lemma spec_first_failure_Inl:
  "spec_first_failure cs = Inl e \<Longrightarrow> Some e \<in> set cs"
  by (induction cs rule: spec_first_failure.induct) auto

lemma spec_first_failure_all_None:
  "list_all (\<lambda>c. c = None) cs \<Longrightarrow> spec_first_failure cs = Inr ()"
  by (induction cs rule: spec_first_failure.induct) auto

lemma spec_check_skipped:
  assumes "first_token hs n = None \<or> first_token hs n = Some []"
  shows "spec_check_host_chars hs n = None"
    and "n = ''x-forwarded-port'' \<Longrightarrow> spec_check_port hs = None"
    and "n = ''x-forwarded-proto'' \<Longrightarrow> spec_check_proto hs = None"
    and "n = ''x-forwarded-prefix'' \<Longrightarrow> spec_check_prefix hs = None"
  using assms
  by (auto simp: spec_check_host_chars_def spec_check_port_def spec_check_proto_def
      spec_check_prefix_def)

lemma validateHeaders_error_source:
  assumes "validateHeaders req = Inl e"
  shows "Some e \<in> {spec_check_host_chars (headers req) ''host'',
            spec_check_host_chars (headers req) ''x-forwarded-host'',
            spec_check_port (headers req), spec_check_proto (headers req),
            spec_check_prefix (headers req)}"
  using spec_first_failure_Inl [OF assms [unfolded validateHeaders_spec]] by simp

lemma validateHeaders_not_host_chars:
  assumes "first_token (headers req) n = None \<or> first_token (headers req) n = Some []"
  shows "validateHeaders req \<noteq> Inl (HostCharsError n)"
proof
  assume "validateHeaders req = Inl (HostCharsError n)"
  from validateHeaders_error_source [OF this]
  have "spec_check_host_chars (headers req) n = Some (HostCharsError n)"
    using spec_check_host_chars_cases [of "headers req" "''host''"]
      spec_check_host_chars_cases [of "headers req" "''x-forwarded-host''"]
      spec_check_port_cases [of "headers req"] spec_check_proto_cases [of "headers req"]
      spec_check_prefix_cases [of "headers req"]
    by auto
  with spec_check_skipped(1) [OF assms] show False by simp
qed

lemma validateHeaders_not_port:
  assumes "first_token (headers req) ''x-forwarded-port'' = None
     \<or> first_token (headers req) ''x-forwarded-port'' = Some []"
  shows "validateHeaders req \<noteq> Inl PortError"
proof
  assume "validateHeaders req = Inl PortError"
  from validateHeaders_error_source [OF this]
  have "spec_check_port (headers req) = Some PortError"
    using spec_check_host_chars_cases [of "headers req" "''host''"]
      spec_check_host_chars_cases [of "headers req" "''x-forwarded-host''"]
      spec_check_proto_cases [of "headers req"] spec_check_prefix_cases [of "headers req"]
    by auto
  with spec_check_skipped(2) [OF assms] show False by simp
qed

lemma validateHeaders_not_proto:
  assumes "first_token (headers req) ''x-forwarded-proto'' = None
     \<or> first_token (headers req) ''x-forwarded-proto'' = Some []"
  shows "validateHeaders req \<noteq> Inl ProtoError"
proof
  assume "validateHeaders req = Inl ProtoError"
  from validateHeaders_error_source [OF this]
  have "spec_check_proto (headers req) = Some ProtoError"
    using spec_check_host_chars_cases [of "headers req" "''host''"]
      spec_check_host_chars_cases [of "headers req" "''x-forwarded-host''"]
      spec_check_port_cases [of "headers req"] spec_check_prefix_cases [of "headers req"]
    by auto
  with spec_check_skipped(3) [OF assms] show False by simp
qed

lemma validateHeaders_not_prefix:
  assumes "first_token (headers req) ''x-forwarded-prefix'' = None
     \<or> first_token (headers req) ''x-forwarded-prefix'' = Some []"
  shows "validateHeaders req \<noteq> Inl PrefixError"
proof
  assume "validateHeaders req = Inl PrefixError"
  then have "spec_check_prefix (headers req) = Some PrefixError"
    by (rule validateHeaders_PrefixError_imp)
  with spec_check_skipped(4) [OF assms] show False by simp
qed

lemma validateHeaders_all_skipped:
  assumes "list_all (\<lambda>n. first_token (headers req) n = None \<or> first_token (headers req) n = Some [])
     [''host'', ''x-forwarded-host'', ''x-forwarded-port'', ''x-forwarded-proto'',
      ''x-forwarded-prefix'']"
  shows "validateHeaders req = Inr ()"
proof -
  from assms have "spec_check_host_chars (headers req) ''host'' = None"
    "spec_check_host_chars (headers req) ''x-forwarded-host'' = None"
    "spec_check_port (headers req) = None" "spec_check_proto (headers req) = None"
    "spec_check_prefix (headers req) = None"
    by (auto simp: spec_check_host_chars_def spec_check_port_def spec_check_proto_def
        spec_check_prefix_def)
  then show ?thesis by (simp add: validateHeaders_spec)
qed

lemma no_host_like_get:
  assumes "list_all (\<lambda>kv. toLowerCase (fst kv) \<notin> set HOST_HEADERS_TO_VALIDATE) hs"
    and "toLowerCase name \<in> set HOST_HEADERS_TO_VALIDATE"
  shows "originalGet hs name = None"
proof (cases "originalGet hs name")
  case None
  then show ?thesis .
next
  case (Some s)
  then have "(toLowerCase name, s) \<in> set hs"
    by (simp add: originalGet_def map_of_SomeD)
  with assms(1) have "toLowerCase (toLowerCase name) \<notin> set HOST_HEADERS_TO_VALIDATE"
    by (auto simp: list_all_iff)
  moreover from assms(2) have "toLowerCase (toLowerCase name) = toLowerCase name"
    using toLowerCase_host toLowerCase_x_forwarded_host
    by (auto simp: HOST_HEADERS_TO_VALIDATE_def)
  ultimately show ?thesis using assms(2) by simp
qed

lemma no_host_like_patched_get:
  assumes "list_all (\<lambda>kv. toLowerCase (fst kv) \<notin> set HOST_HEADERS_TO_VALIDATE) hs"
  shows "patched_get parse hs allowedHosts name p = (Inr (originalGet hs name), p)"
proof (cases "toLowerCase name \<in> set HOST_HEADERS_TO_VALIDATE")
  case True
  from no_host_like_get [OF assms True] show ?thesis
    by (simp add: patched_get_absent)
next
  case False
  then show ?thesis by (rule patched_get_not_sensitive)
qed

lemma no_host_like_patched_values:
  assumes "list_all (\<lambda>kv. toLowerCase (fst kv) \<notin> set HOST_HEADERS_TO_VALIDATE) hs"
  shows "patched_values parse hs allowedHosts p = (Inr (originalValues hs), p)"
proof -
  have "originalGet hs ''host'' = None" "originalGet hs ''x-forwarded-host'' = None"
    using no_host_like_get [OF assms] sensitive_names by simp_all
  then show ?thesis
    by (simp add: patched_values_unfold validateHeader_falsy)
qed

lemma no_host_like_entries_next:
  assumes "list_all (\<lambda>kv. toLowerCase (fst kv) \<notin> set HOST_HEADERS_TO_VALIDATE) it"
  shows "entries_next parse allowedHosts it p =
     (Inr (case it of [] \<Rightarrow> None | kv # _ \<Rightarrow> Some kv), tl it, p)"
proof (cases it)
  case Nil
  then show ?thesis by (simp add: entries_next_done)
next
  case (Cons kv rest)
  obtain k v where kv: "kv = (k, v)" by (cases kv)
  with assms Cons have "toLowerCase k \<notin> set HOST_HEADERS_TO_VALIDATE" by simp
  then show ?thesis
    by (simp add: Cons kv entries_next_not_sensitive)
qed

lemma list_all_suffix: "suffix it hs \<Longrightarrow> list_all P hs \<Longrightarrow> list_all P it"
  by (auto simp: suffix_def)

text \<open>
  C10. A missing or empty header value never causes a violation. \<^verbatim>\<open>validateHeaders\<close>
  does not raise the error of a rule whose header has no first token or an empty one, and
  returns normally when that holds for all five headers; \<^verbatim>\<open>verifyHostAllowed\<close> returns
  without error when the first token is empty; the patched \<^verbatim>\<open>get\<close> returns an absent or
  empty value as it is, the promise untouched. For a request with no \<^verbatim>\<open>host\<close> and no
  \<^verbatim>\<open>x-forwarded-host\<close> header, no patched read (\<^verbatim>\<open>get\<close> of any name, \<^verbatim>\<open>values\<close>, any
  step of \<^verbatim>\<open>entries\<close>) raises or resolves the promise.
\<close>

theorem missing_or_empty_never_violates:
  "((first_token (headers req) n = None \<or> first_token (headers req) n = Some [])
       \<longrightarrow> validateHeaders req \<noteq> Inl (HostCharsError n))
   \<and> ((first_token (headers req) ''x-forwarded-port'' = None
         \<or> first_token (headers req) ''x-forwarded-port'' = Some [])
       \<longrightarrow> validateHeaders req \<noteq> Inl PortError)
   \<and> ((first_token (headers req) ''x-forwarded-proto'' = None
         \<or> first_token (headers req) ''x-forwarded-proto'' = Some [])
       \<longrightarrow> validateHeaders req \<noteq> Inl ProtoError)
   \<and> ((first_token (headers req) ''x-forwarded-prefix'' = None
         \<or> first_token (headers req) ''x-forwarded-prefix'' = Some [])
       \<longrightarrow> validateHeaders req \<noteq> Inl PrefixError)
   \<and> (list_all (\<lambda>n. first_token (headers req) n = None \<or> first_token (headers req) n = Some [])
         [''host'', ''x-forwarded-host'', ''x-forwarded-port'', ''x-forwarded-proto'',
          ''x-forwarded-prefix'']
       \<longrightarrow> validateHeaders req = Inr ())
   \<and> (getFirstHeaderValue (Some (Str s)) = Some []
       \<longrightarrow> verifyHostAllowed parse name s allowedHosts = Inr ())
   \<and> (originalGet hs name = None
       \<longrightarrow> patched_get parse hs allowedHosts name p = (Inr None, p))
   \<and> (originalGet hs name = Some []
       \<longrightarrow> patched_get parse hs allowedHosts name p = (Inr (Some []), p))
   \<and> (list_all (\<lambda>kv. toLowerCase (fst kv) \<notin> set HOST_HEADERS_TO_VALIDATE) hs
       \<longrightarrow> patched_get parse hs allowedHosts name p = (Inr (originalGet hs name), p)
         \<and> patched_values parse hs allowedHosts p = (Inr (originalValues hs), p)
         \<and> (suffix it hs \<longrightarrow>
              entries_next parse allowedHosts it p =
                (Inr (case it of [] \<Rightarrow> None | kv # _ \<Rightarrow> Some kv), tl it, p)))"
proof -
  have 9: "list_all (\<lambda>kv. toLowerCase (fst kv) \<notin> set HOST_HEADERS_TO_VALIDATE) hs
       \<longrightarrow> patched_get parse hs allowedHosts name p = (Inr (originalGet hs name), p)
         \<and> patched_values parse hs allowedHosts p = (Inr (originalValues hs), p)
         \<and> (suffix it hs \<longrightarrow>
              entries_next parse allowedHosts it p =
                (Inr (case it of [] \<Rightarrow> None | kv # _ \<Rightarrow> Some kv), tl it, p))"
    using no_host_like_patched_get no_host_like_patched_values no_host_like_entries_next
      list_all_suffix
    by blast
  show ?thesis
    using validateHeaders_not_host_chars validateHeaders_not_port validateHeaders_not_proto
      validateHeaders_not_prefix validateHeaders_all_skipped verifyHostAllowed_empty_token
      patched_get_absent patched_get_empty 9
    by (intro conjI impI) blast+
qed

theorem missing_or_empty_never_violates_witness:
  "validateHeaders
      \<lparr>url = ''https://allowed.example.com/page'',
       headers = [(''accept'', ''text/html''), (''x-forwarded-port'', '' , 80a'')]\<rparr> = Inr ()
   \<and> getFirstHeaderValue (Some (Str '' , attacker.com'')) = Some []
   \<and> verifyHostAllowed URL_parse ''host'' '' , attacker.com'' [''*.example.com''] = Inr ()
   \<and> patched_get URL_parse [(''accept'', ''text/html''), (''x-forwarded-port'', '' , 80a'')]
        [''*.example.com''] ''Host'' None = (Inr None, None)
   \<and> patched_get URL_parse [(''host'', [])] [''*.example.com''] ''host'' None
        = (Inr (Some []), None)
   \<and> patched_values URL_parse [(''accept'', ''text/html''), (''x-forwarded-port'', '' , 80a'')]
        [''*.example.com''] None = (Inr [''text/html'', '' , 80a''], None)
   \<and> entries_next URL_parse [''*.example.com'']
        [(''accept'', ''text/html''), (''x-forwarded-port'', '' , 80a'')] None
        = (Inr (Some (''accept'', ''text/html'')), [(''x-forwarded-port'', '' , 80a'')], None)"
proof -
  let ?hs = "[(''accept'', ''text/html''), (''x-forwarded-port'', '' , 80a'')]"
  let ?req = "\<lparr>url = ''https://allowed.example.com/page'', headers = ?hs\<rparr>"
  let ?ah = "[''*.example.com'']"
  have skipped: "list_all (\<lambda>n. first_token (headers ?req) n = None
        \<or> first_token (headers ?req) n = Some [])
      [''host'', ''x-forwarded-host'', ''x-forwarded-port'', ''x-forwarded-proto'',
       ''x-forwarded-prefix'']"
    by code_simp
  have tok: "getFirstHeaderValue (Some (Str '' , attacker.com'')) = Some []"
    by (simp add: getFirstHeaderValue_Some trim_def is_white_space_def)
  have absent: "originalGet ?hs ''Host'' = None"
    by (simp add: originalGet_def toLowerCase_Host)
  have empty: "originalGet [(''host'', [])] ''host'' = Some []"
    by (simp add: originalGet_single toLowerCase_host)
  have none: "list_all (\<lambda>kv. toLowerCase (fst kv) \<notin> set HOST_HEADERS_TO_VALIDATE) ?hs"
    by code_simp
  have suf: "suffix ?hs ?hs" by simp
  have 1: "validateHeaders ?req = Inr ()"
    using missing_or_empty_never_violates [where req = ?req] skipped by blast
  have 2: "verifyHostAllowed URL_parse ''host'' '' , attacker.com'' ?ah = Inr ()"
    using missing_or_empty_never_violates [where s = "'' , attacker.com''"] tok by blast
  have 3: "patched_get URL_parse ?hs ?ah ''Host'' None = (Inr None, None)"
    using missing_or_empty_never_violates [where hs = ?hs and name = "''Host''"] absent
    by blast
  have 4: "patched_get URL_parse [(''host'', [])] ?ah ''host'' None = (Inr (Some []), None)"
    using missing_or_empty_never_violates [where hs = "[(''host'', [])]" and name = "''host''"]
      empty by blast
  have 5: "patched_values URL_parse ?hs ?ah None = (Inr (originalValues ?hs), None)"
    using missing_or_empty_never_violates [where hs = ?hs] none by blast
  have 6: "entries_next URL_parse ?ah ?hs None =
      (Inr (case ?hs of [] \<Rightarrow> None | kv # _ \<Rightarrow> Some kv), tl ?hs, None)"
    using missing_or_empty_never_violates [where hs = ?hs and it = ?hs] none suf by blast
  from 1 tok 2 3 4 5 6 show ?thesis
    by (simp add: originalValues_def)
qed

lemma validateRequest_never_header_allow_list:
  "validateRequest parse req allowedHosts \<noteq> Inl (HeaderNotAllowed n v)"
proof
  assume a: "validateRequest parse req allowedHosts = Inl (HeaderNotAllowed n v)"
  have "Some (HeaderNotAllowed n v) \<in> set
       [spec_check_host_chars (headers req) ''host'',
        spec_check_host_chars (headers req) ''x-forwarded-host'',
        spec_check_port (headers req),
        spec_check_proto (headers req),
        spec_check_prefix (headers req),
        spec_check_url parse req allowedHosts]"
    using a unfolding validateRequest_first_failure by (rule spec_first_failure_Inl)
  moreover have "spec_check_url parse req allowedHosts \<noteq> Some (HeaderNotAllowed n v)"
    by (simp add: spec_check_url_def split: option.splits)
  ultimately show False
    using spec_check_host_chars_cases [of "headers req" "''host''"]
      spec_check_host_chars_cases [of "headers req" "''x-forwarded-host''"]
      spec_check_port_cases [of "headers req"] spec_check_proto_cases [of "headers req"]
      spec_check_prefix_cases [of "headers req"]
    by auto
qed

subsection \<open>The allow-list on headers\<close>

lemma attacker_request_passes:
  "validateRequest URL_parse
     \<lparr>url = ''https://allowed.example.com/page'', headers = [(''host'', ''attacker.com'')]\<rparr>
     [''*.example.com''] = Inr ()"
proof -
  have "validateHeaders
     \<lparr>url = ''https://allowed.example.com/page'', headers = [(''host'', ''attacker.com'')]\<rparr>
     = Inr ()"
    by code_simp
  then show ?thesis
    by (simp add: validateRequest_def URL_parse_allowed validateUrl_def isHostAllowed_def
        startsWith_def endsWith_def)
qed

lemma attacker_read_raises:
  "patched_get URL_parse [(''host'', ''attacker.com'')] [''*.example.com''] ''host'' None
     = (Inl (HeaderNotAllowed ''host'' ''attacker.com''),
        Some (HeaderNotAllowed ''host'' ''attacker.com''))"
  using sensitive_names(1)
  by (simp add: patched_get_sensitive originalGet_single toLowerCase_host attacker_not_allowed
      onError_pending)

lemma nonempty_token_nonempty_value:
  "getFirstHeaderValue (Some (Str s)) = Some t \<Longrightarrow> t \<noteq> [] \<Longrightarrow> s \<noteq> []"
  using token_empty by auto

text \<open>
  C1, as the code has it. \<^verbatim>\<open>validateRequest\<close> never raises the allow-list error of a
  header: it checks \<^verbatim>\<open>host\<close> and \<^verbatim>\<open>x-forwarded-host\<close> against the character class only,
  and the allow-list against the hostname of the URL. The allow-list error naming the
  header is raised when the header is read in the patched clone: if the first token of a
  \<^verbatim>\<open>host\<close> or \<^verbatim>\<open>x-forwarded-host\<close> header parses, as \<^verbatim>\<open>http://<token>\<close>, to a hostname
  that the allow-list does not admit, \<^verbatim>\<open>verifyHostAllowed\<close> and the patched \<^verbatim>\<open>get\<close> raise
  it and \<^verbatim>\<open>onError\<close> receives it. With \<^verbatim>\<open>host: attacker.com\<close>, the allow-list
  \<^verbatim>\<open>{"*.example.com"}\<close> and the URL \<^verbatim>\<open>https://allowed.example.com/page\<close>,
  \<^verbatim>\<open>validateRequest\<close> returns normally, and reading \<^verbatim>\<open>host\<close> in the patched clone raises
  \<^verbatim>\<open>Header "host" with value "attacker.com" is not allowed.\<close>
\<close>

theorem header_allow_list_is_deferred:
  \<open>validateRequest parse req allowedHosts \<noteq> Inl (HeaderNotAllowed n v)
   \<and> (toLowerCase name \<in> set HOST_HEADERS_TO_VALIDATE
        \<and> originalGet hs name = Some s
        \<and> getFirstHeaderValue (Some (Str s)) = Some t \<and> t \<noteq> []
        \<and> parse (''http://'' @ t) = Some u
        \<and> \<not> isHostAllowed (hostname u) allowedHosts
      \<longrightarrow> verifyHostAllowed parse name s allowedHosts = Inl (HeaderNotAllowed name t)
        \<and> patched_get parse hs allowedHosts name p
            = (Inl (HeaderNotAllowed name t), onError (HeaderNotAllowed name t) p))
   \<and> validateRequest URL_parse
        \<lparr>url = ''https://allowed.example.com/page'', headers = [(''host'', ''attacker.com'')]\<rparr>
        [''*.example.com''] = Inr ()
   \<and> patched_get URL_parse [(''host'', ''attacker.com'')] [''*.example.com''] ''host'' None
        = (Inl (HeaderNotAllowed ''host'' ''attacker.com''),
           Some (HeaderNotAllowed ''host'' ''attacker.com''))
   \<and> message (HeaderNotAllowed ''host'' ''attacker.com'')
        = ''Header "host" with value "attacker.com" is not allowed.''\<close>
proof -
  have b: "toLowerCase name \<in> set HOST_HEADERS_TO_VALIDATE
        \<and> originalGet hs name = Some s
        \<and> getFirstHeaderValue (Some (Str s)) = Some t \<and> t \<noteq> []
        \<and> parse (''http://'' @ t) = Some u
        \<and> \<not> isHostAllowed (hostname u) allowedHosts
      \<longrightarrow> verifyHostAllowed parse name s allowedHosts = Inl (HeaderNotAllowed name t)
        \<and> patched_get parse hs allowedHosts name p
            = (Inl (HeaderNotAllowed name t), onError (HeaderNotAllowed name t) p)"
  proof
    assume h: "toLowerCase name \<in> set HOST_HEADERS_TO_VALIDATE
        \<and> originalGet hs name = Some s
        \<and> getFirstHeaderValue (Some (Str s)) = Some t \<and> t \<noteq> []
        \<and> parse (''http://'' @ t) = Some u
        \<and> \<not> isHostAllowed (hostname u) allowedHosts"
    then have s: "s \<noteq> []" using nonempty_token_nonempty_value by blast
    from h have v: "verifyHostAllowed parse name s allowedHosts = Inl (HeaderNotAllowed name t)"
      by (simp add: verifyHostAllowed_token [of s t])
    with h s show "verifyHostAllowed parse name s allowedHosts = Inl (HeaderNotAllowed name t)
        \<and> patched_get parse hs allowedHosts name p
            = (Inl (HeaderNotAllowed name t), onError (HeaderNotAllowed name t) p)"
      by (simp add: patched_get_sensitive)
  qed
  have m: \<open>message (HeaderNotAllowed ''host'' ''attacker.com'')
        = ''Header "host" with value "attacker.com" is not allowed.''\<close>
    by simp
  show ?thesis
    by (intro conjI validateRequest_never_header_allow_list b attacker_request_passes
        attacker_read_raises m)
qed

theorem header_allow_list_is_deferred_witness:
  "toLowerCase ''X-Forwarded-Host'' \<in> set HOST_HEADERS_TO_VALIDATE
   \<and> originalGet [(''x-forwarded-host'', ''attacker.com'')] ''X-Forwarded-Host''
        = Some ''attacker.com''
   \<and> URL_parse (''http://'' @ ''attacker.com'') = Some \<lparr>hostname = ''attacker.com''\<rparr>
   \<and> \<not> isHostAllowed ''attacker.com'' [''*.example.com'']
   \<and> patched_get URL_parse [(''x-forwarded-host'', ''attacker.com'')] [''*.example.com'']
        ''X-Forwarded-Host'' None
      = (Inl (HeaderNotAllowed ''X-Forwarded-Host'' ''attacker.com''),
         Some (HeaderNotAllowed ''X-Forwarded-Host'' ''attacker.com''))"
proof -
  let ?hs = "[(''x-forwarded-host'', ''attacker.com'')]"
  have 1: "toLowerCase ''X-Forwarded-Host'' \<in> set HOST_HEADERS_TO_VALIDATE"
    by (simp add: toLowerCase_X_Forwarded_Host HOST_HEADERS_TO_VALIDATE_def)
  have 2: "originalGet ?hs ''X-Forwarded-Host'' = Some ''attacker.com''"
    by (simp add: originalGet_single toLowerCase_X_Forwarded_Host)
  have 3: "URL_parse (''http://'' @ ''attacker.com'') = Some \<lparr>hostname = ''attacker.com''\<rparr>"
    by (simp add: URL_parse_attacker)
  have 4: "\<not> isHostAllowed (hostname \<lparr>hostname = ''attacker.com''\<rparr>) [''*.example.com'']"
    by (simp add: isHostAllowed_def startsWith_def endsWith_def)
  have 5: "''attacker.com'' \<noteq> []" by simp
  from header_allow_list_is_deferred
    [where name = "''X-Forwarded-Host''" and hs = ?hs and s = "''attacker.com''"
      and t = "''attacker.com''" and parse = URL_parse and u = "\<lparr>hostname = ''attacker.com''\<rparr>"
      and allowedHosts = "[''*.example.com'']" and p = None]
    1 2 3 4 5 token_attacker
  have "patched_get URL_parse ?hs [''*.example.com''] ''X-Forwarded-Host'' None
      = (Inl (HeaderNotAllowed ''X-Forwarded-Host'' ''attacker.com''),
         onError (HeaderNotAllowed ''X-Forwarded-Host'' ''attacker.com'') None)"
    by blast
  with 1 2 3 4 show ?thesis by (simp add: onError_pending)
qed

text \<open>The request of scenario B: \<^verbatim>\<open>attacker.com\<close> passes the character class and is not
  admitted by \<^verbatim>\<open>{"*.example.com"}\<close>, and \<^verbatim>\<open>validateRequest\<close> returns normally.\<close>

theorem upfront_header_allow_list_counterexample:
  "first_token [(''host'', ''attacker.com'')] ''host'' = Some ''attacker.com''
   \<and> VALID_HOST_REGEX_test ''attacker.com''
   \<and> \<not> isHostAllowed ''attacker.com'' [''*.example.com'']
   \<and> validateRequest URL_parse
        \<lparr>url = ''https://allowed.example.com/page'', headers = [(''host'', ''attacker.com'')]\<rparr>
        [''*.example.com''] = Inr ()"
proof -
  have 1: "first_token [(''host'', ''attacker.com'')] ''host'' = Some ''attacker.com''"
    by (simp add: first_token_def originalGet_single toLowerCase_host token_attacker)
  have 2: "VALID_HOST_REGEX_test ''attacker.com''"
    by (simp add: VALID_HOST_REGEX_test_def host_class_def is_letter_def is_digit_def)
  have 3: "\<not> isHostAllowed ''attacker.com'' [''*.example.com'']"
    by (simp add: isHostAllowed_def startsWith_def endsWith_def)
  from 1 2 3 attacker_request_passes show ?thesis by simp
qed

subsection \<open>What a deferred read checks\<close>

lemma patched_values_second:
  assumes "validateHeader parse ''host'' (originalGet hs ''host'') allowedHosts p = (Inr (), p)"
    and "originalGet hs ''x-forwarded-host'' = Some s" and "s \<noteq> []"
  shows "patched_values parse hs allowedHosts p =
     (case verifyHostAllowed parse ''x-forwarded-host'' s allowedHosts of
        Inl e \<Rightarrow> (Inl e, onError e p)
      | Inr _ \<Rightarrow> (Inr (originalValues hs), p))"
  using assms sensitive_names(2)
  by (simp add: patched_values_unfold validateHeader_sensitive split: sum.splits)

lemma bad_host_get:
  "patched_get URL_parse [(''x-forwarded-host'', ''bad host'')] allowedHosts
      ''x-forwarded-host'' None
     = (Inl (HeaderUnparsable ''x-forwarded-host''), Some (HeaderUnparsable ''x-forwarded-host''))"
  using sensitive_names(2)
  by (simp add: patched_get_sensitive originalGet_single toLowerCase_x_forwarded_host
      bad_host_unparsable onError_pending)

lemma bad_host_entries:
  "entries_next URL_parse allowedHosts [(''x-forwarded-host'', ''bad host'')] None
     = (Inl (HeaderUnparsable ''x-forwarded-host''), [],
        Some (HeaderUnparsable ''x-forwarded-host''))"
  using sensitive_names(2)
  by (simp add: entries_next_sensitive bad_host_unparsable onError_pending)

lemma bad_host_values:
  "patched_values URL_parse [(''x-forwarded-host'', ''bad host'')] allowedHosts None
     = (Inl (HeaderUnparsable ''x-forwarded-host''), Some (HeaderUnparsable ''x-forwarded-host''))"
proof -
  have "originalGet [(''x-forwarded-host'', ''bad host'')] ''host'' = None"
    by (simp add: originalGet_def toLowerCase_host)
  then have "validateHeader URL_parse ''host''
      (originalGet [(''x-forwarded-host'', ''bad host'')] ''host'') allowedHosts None
      = (Inr (), None)"
    by (simp add: validateHeader_falsy)
  then show ?thesis
    by (simp add: patched_values_second [where s = "''bad host''"] originalGet_single
        toLowerCase_x_forwarded_host bad_host_unparsable onError_pending)
qed

text \<open>
  C2, as the code has it. In the clone returned by \<^verbatim>\<open>cloneRequestAndPatchHeaders\<close>, every
  read of a non-empty \<^verbatim>\<open>host\<close> or \<^verbatim>\<open>x-forwarded-host\<close> value (by \<^verbatim>\<open>get\<close>, by a step of
  \<^verbatim>\<open>entries\<close>, by \<^verbatim>\<open>values\<close>, which reads \<^verbatim>\<open>host\<close> and then \<^verbatim>\<open>x-forwarded-host\<close>) runs
  \<^verbatim>\<open>verifyHostAllowed\<close> on it: the first token must parse as \<^verbatim>\<open>http://<token>\<close>, else
  the unparsable error, and the parsed hostname must be admitted by the allow-list, else
  the allow-list error. The character class is not checked on this path. For
  \<^verbatim>\<open>x-forwarded-host: bad host\<close> each of the three reads of that header raises the
  unparsable error and resolves the pending promise with the same error.
\<close>

theorem deferred_read_checks:
  "(toLowerCase name \<in> set HOST_HEADERS_TO_VALIDATE \<and> s \<noteq> [] \<longrightarrow>
       (originalGet hs name = Some s \<longrightarrow>
          patched_get parse hs allowedHosts name p =
            (case verifyHostAllowed parse name s allowedHosts of
               Inl e \<Rightarrow> (Inl e, onError e p) | Inr _ \<Rightarrow> (Inr (Some s), p)))
     \<and> entries_next parse allowedHosts ((name, s) # rest) p =
          (case verifyHostAllowed parse name s allowedHosts of
             Inl e \<Rightarrow> (Inl e, rest, onError e p) | Inr _ \<Rightarrow> (Inr (Some (name, s)), rest, p)))
   \<and> (originalGet hs ''host'' = Some s \<and> s \<noteq> []
        \<and> verifyHostAllowed parse ''host'' s allowedHosts = Inl err
      \<longrightarrow> patched_values parse hs allowedHosts p = (Inl err, onError err p))
   \<and> (validateHeader parse ''host'' (originalGet hs ''host'') allowedHosts p = (Inr (), p)
        \<and> originalGet hs ''x-forwarded-host'' = Some s \<and> s \<noteq> []
      \<longrightarrow> patched_values parse hs allowedHosts p =
            (case verifyHostAllowed parse ''x-forwarded-host'' s allowedHosts of
               Inl e \<Rightarrow> (Inl e, onError e p) | Inr _ \<Rightarrow> (Inr (originalValues hs), p)))
   \<and> (getFirstHeaderValue (Some (Str s)) = Some t \<and> t \<noteq> [] \<longrightarrow>
        verifyHostAllowed parse name s allowedHosts =
          (case parse (''http://'' @ t) of
             None \<Rightarrow> Inl (HeaderUnparsable name)
           | Some u \<Rightarrow> if isHostAllowed (hostname u) allowedHosts then Inr ()
                       else Inl (HeaderNotAllowed name t)))
   \<and> patched_get URL_parse [(''x-forwarded-host'', ''bad host'')] allowedHosts
        ''x-forwarded-host'' None
      = (Inl (HeaderUnparsable ''x-forwarded-host''), Some (HeaderUnparsable ''x-forwarded-host''))
   \<and> entries_next URL_parse allowedHosts [(''x-forwarded-host'', ''bad host'')] None
      = (Inl (HeaderUnparsable ''x-forwarded-host''), [],
         Some (HeaderUnparsable ''x-forwarded-host''))
   \<and> patched_values URL_parse [(''x-forwarded-host'', ''bad host'')] allowedHosts None
      = (Inl (HeaderUnparsable ''x-forwarded-host''), Some (HeaderUnparsable ''x-forwarded-host''))"
proof -
  have a: "toLowerCase name \<in> set HOST_HEADERS_TO_VALIDATE \<and> s \<noteq> [] \<longrightarrow>
       (originalGet hs name = Some s \<longrightarrow>
          patched_get parse hs allowedHosts name p =
            (case verifyHostAllowed parse name s allowedHosts of
               Inl e \<Rightarrow> (Inl e, onError e p) | Inr _ \<Rightarrow> (Inr (Some s), p)))
     \<and> entries_next parse allowedHosts ((name, s) # rest) p =
          (case verifyHostAllowed parse name s allowedHosts of
             Inl e \<Rightarrow> (Inl e, rest, onError e p) | Inr _ \<Rightarrow> (Inr (Some (name, s)), rest, p))"
    by (simp add: patched_get_sensitive entries_next_sensitive)
  have b: "originalGet hs ''host'' = Some s \<and> s \<noteq> []
        \<and> verifyHostAllowed parse ''host'' s allowedHosts = Inl err
      \<longrightarrow> patched_values parse hs allowedHosts p = (Inl err, onError err p)"
    by (simp add: patched_values_host_raises)
  have c: "validateHeader parse ''host'' (originalGet hs ''host'') allowedHosts p = (Inr (), p)
        \<and> originalGet hs ''x-forwarded-host'' = Some s \<and> s \<noteq> []
      \<longrightarrow> patched_values parse hs allowedHosts p =
            (case verifyHostAllowed parse ''x-forwarded-host'' s allowedHosts of
               Inl e \<Rightarrow> (Inl e, onError e p) | Inr _ \<Rightarrow> (Inr (originalValues hs), p))"
    using patched_values_second by blast
  have d: "getFirstHeaderValue (Some (Str s)) = Some t \<and> t \<noteq> [] \<longrightarrow>
        verifyHostAllowed parse name s allowedHosts =
          (case parse (''http://'' @ t) of
             None \<Rightarrow> Inl (HeaderUnparsable name)
           | Some u \<Rightarrow> if isHostAllowed (hostname u) allowedHosts then Inr ()
                       else Inl (HeaderNotAllowed name t))"
    using verifyHostAllowed_token by blast
  show ?thesis
    by (intro conjI a b c d bad_host_get bad_host_entries bad_host_values)
qed

theorem deferred_read_checks_witness:
  "toLowerCase ''host'' \<in> set HOST_HEADERS_TO_VALIDATE
   \<and> originalGet [(''host'', ''api.example.com/x'')] ''host'' = Some ''api.example.com/x''
   \<and> getFirstHeaderValue (Some (Str ''api.example.com/x'')) = Some ''api.example.com/x''
   \<and> verifyHostAllowed URL_parse ''host'' ''api.example.com/x'' [''*.example.com''] = Inr ()
   \<and> patched_get URL_parse [(''host'', ''api.example.com/x'')] [''*.example.com''] ''host'' None
        = (Inr (Some ''api.example.com/x''), None)
   \<and> patched_values URL_parse [(''host'', ''bad host'')] [''*.example.com''] None
        = (Inl (HeaderUnparsable ''host''), Some (HeaderUnparsable ''host''))
   \<and> patched_values URL_parse [(''x-forwarded-host'', ''api.example.com/x'')]
        [''*.example.com''] None = (Inr [''api.example.com/x''], None)"
proof -
  let ?hs = "[(''host'', ''api.example.com/x'')]"
  let ?ah = "[''*.example.com'']"
  note T = deferred_read_checks
  have g: "originalGet ?hs ''host'' = Some ''api.example.com/x''"
    by (simp add: originalGet_single toLowerCase_host)
  have n: "''api.example.com/x'' \<noteq> []" "''bad host'' \<noteq> []" by simp_all
  have v: "verifyHostAllowed URL_parse ''host'' ''api.example.com/x'' ?ah = Inr ()"
    using T [where s = "''api.example.com/x''" and t = "''api.example.com/x''"
        and parse = URL_parse and name = "''host''" and allowedHosts = ?ah]
      token_api_path n(1)
    by (simp add: URL_parse_api_path isHostAllowed_def startsWith_def endsWith_def)
  have 1: "patched_get URL_parse ?hs ?ah ''host'' None = (Inr (Some ''api.example.com/x''), None)"
    using T [where s = "''api.example.com/x''" and hs = ?hs and parse = URL_parse
        and name = "''host''" and allowedHosts = ?ah and p = None]
      sensitive_names(1) g n(1) v
    by simp
  have gb: "originalGet [(''host'', ''bad host'')] ''host'' = Some ''bad host''"
    by (simp add: originalGet_single toLowerCase_host)
  have 2: "patched_values URL_parse [(''host'', ''bad host'')] ?ah None
      = (Inl (HeaderUnparsable ''host''), Some (HeaderUnparsable ''host''))"
    using T [where s = "''bad host''" and hs = "[(''host'', ''bad host'')]" and parse = URL_parse
        and allowedHosts = ?ah and p = None and err = "HeaderUnparsable ''host''"]
      gb n(2) bad_host_unparsable [of "''host''" ?ah]
    by (simp add: onError_pending)
  let ?hx = "[(''x-forwarded-host'', ''api.example.com/x'')]"
  have h0: "validateHeader URL_parse ''host'' (originalGet ?hx ''host'') ?ah None = (Inr (), None)"
    by (simp add: validateHeader_falsy originalGet_def toLowerCase_host)
  have gx: "originalGet ?hx ''x-forwarded-host'' = Some ''api.example.com/x''"
    by (simp add: originalGet_single toLowerCase_x_forwarded_host)
  have 3: "patched_values URL_parse ?hx ?ah None = (Inr [''api.example.com/x''], None)"
    using T [where s = "''api.example.com/x''" and hs = ?hx and parse = URL_parse
        and allowedHosts = ?ah and p = None] h0 gx n(1)
    by (simp add: api_path_allowed originalValues_def)
  from sensitive_names(1) g token_api_path v 1 2 3 show ?thesis by simp
qed

text \<open>The value \<^verbatim>\<open>api.example.com/x\<close> fails the character class (it has a \<^verbatim>\<open>/\<close>), and
  every read of it in the patched clone returns it: nothing is raised and the promise
  stays pending.\<close>

theorem deferred_read_character_class_counterexample:
  "\<not> VALID_HOST_REGEX_test ''api.example.com/x''
   \<and> originalGet [(''x-forwarded-host'', ''api.example.com/x'')] ''x-forwarded-host''
        = Some ''api.example.com/x''
   \<and> patched_get URL_parse [(''x-forwarded-host'', ''api.example.com/x'')] [''*.example.com'']
        ''x-forwarded-host'' None = (Inr (Some ''api.example.com/x''), None)
   \<and> entries_next URL_parse [''*.example.com''] [(''x-forwarded-host'', ''api.example.com/x'')]
        None = (Inr (Some (''x-forwarded-host'', ''api.example.com/x'')), [], None)
   \<and> patched_values URL_parse [(''x-forwarded-host'', ''api.example.com/x'')]
        [''*.example.com''] None = (Inr [''api.example.com/x''], None)"
proof -
  let ?hx = "[(''x-forwarded-host'', ''api.example.com/x'')]"
  let ?ah = "[''*.example.com'']"
  have 1: "\<not> VALID_HOST_REGEX_test ''api.example.com/x''"
    by (simp add: VALID_HOST_REGEX_test_def host_class_def is_letter_def is_digit_def)
  have gx: "originalGet ?hx ''x-forwarded-host'' = Some ''api.example.com/x''"
    by (simp add: originalGet_single toLowerCase_x_forwarded_host)
  have 2: "patched_get URL_parse ?hx ?ah ''x-forwarded-host'' None
      = (Inr (Some ''api.example.com/x''), None)"
    using sensitive_names(2) gx
    by (simp add: patched_get_sensitive api_path_allowed)
  have 3: "entries_next URL_parse ?ah ?hx None
      = (Inr (Some (''x-forwarded-host'', ''api.example.com/x'')), [], None)"
    using sensitive_names(2)
    by (simp add: entries_next_sensitive api_path_allowed)
  have h0: "validateHeader URL_parse ''host'' (originalGet ?hx ''host'') ?ah None = (Inr (), None)"
    by (simp add: validateHeader_falsy originalGet_def toLowerCase_host)
  have 4: "patched_values URL_parse ?hx ?ah None = (Inr [''api.example.com/x''], None)"
    using h0 gx
    by (simp add: patched_values_second [where s = "''api.example.com/x''"] api_path_allowed
        originalValues_def)
  from 1 gx 2 3 4 show ?thesis by simp
qed

end
